(* ===== verification/Prelude.thy ===== *)
theory Prelude
  imports Main "HOL-Library.Word" "HOL-Library.Multiset" "HOL-Library.Sublist"
begin

text \<open>
  The base of the development: the names of the Go types the program uses, Go error values
  with their wrapping, nil-able slices, and the generic lemmas on lists and maps that the
  component theories share.

  \<^item> \<open>goint\<close> and \<open>duration\<close> are 64-bit words, read as two's complement by \<open>sint\<close>
    (the service is built for 64-bit targets, where Go's \<open>int\<close> has 64 bits).
  \<^item> \<open>instant\<close> is a point of time, in nanoseconds since January 1 of year 1 UTC, which is
    the zero value of Go's \<open>time.Time\<close>.  The Go type covers far more than any clock
    reading plus a 64-bit duration, so an unbounded \<open>int\<close> is exact here.
  \<^item> a Go string is a sequence of bytes, and HOL's \<open>string\<close> is a list of 8-bit characters.
\<close>

section \<open>Named collections\<close>

named_theorems view_simps \<open>how the observations of a component change under its operations\<close>
named_theorems inv_intros \<open>preservation of component invariants\<close>
named_theorems port_defs \<open>definitions of operation records handed to clients\<close>

section \<open>Go types\<close>

type_synonym goint = "64 word"
type_synonym duration = "64 word"
type_synonym instant = int

abbreviation (input) time_zero :: instant where
  "time_zero \<equiv> 0"

text \<open>A Go slice distinguishes \<open>nil\<close> from an empty, allocated slice.\<close>

type_synonym 'a slice = "'a list option"

definition slice_list :: "'a slice \<Rightarrow> 'a list" where
  "slice_list s = (case s of None \<Rightarrow> [] | Some xs \<Rightarrow> xs)"

lemma slice_list_simps [simp]:
  "slice_list None = []"
  "slice_list (Some xs) = xs"
  by (simp_all add: slice_list_def)

section \<open>Go errors\<close>

text \<open>
  The package-level error values the program compares with \<open>errors.Is\<close>, and the values
  built by \<open>errors.New\<close>, and by \<open>fmt.Errorf\<close> with and without \<open>%w\<close>.
\<close>

datatype sentinel =
    Validate_ErrInvalidOrder
  | Memory_ErrInvalidOrder
  | Context_Canceled
  | Context_DeadlineExceeded
  | Http_ErrServerClosed
  | IO_EOF
  | Bufio_ErrTooLong

datatype goerror =
    Sentinel sentinel
  | Errorf string
  | Wrapf string goerror

text \<open>\<open>errors.Is\<close> compares the error, then each error it wraps, with the target.\<close>

primrec errors_is :: "goerror \<Rightarrow> goerror \<Rightarrow> bool" where
  "errors_is (Sentinel s) t = (Sentinel s = t)"
| "errors_is (Errorf m) t = (Errorf m = t)"
| "errors_is (Wrapf m e) t = (Wrapf m e = t \<or> errors_is e t)"

lemma errors_is_refl [simp]: "errors_is e e"
  by (cases e) auto

lemma errors_is_Wrapf_Sentinel [simp]:
  "errors_is (Wrapf m e) (Sentinel s) \<longleftrightarrow> errors_is e (Sentinel s)"
  by simp

lemma answeredE:
  assumes "\<not> isl (fst res)"
  obtains v where "res = (Inr v, snd res)"
  using assms by (cases res; cases "fst res") auto

section \<open>Lists\<close>

lemma remove1_distinct_filter: "distinct xs \<Longrightarrow> remove1 x xs = filter (\<lambda>y. y \<noteq> x) xs"
  by (simp add: distinct_remove1_removeAll removeAll_filter_not_eq) (metis (mono_tags))

lemma remove1_last_distinct:
  "xs \<noteq> [] \<Longrightarrow> distinct xs \<Longrightarrow> remove1 (last xs) xs = butlast xs"
proof (induction xs rule: rev_induct)
  case Nil
  then show ?case by simp
next
  case (snoc x xs)
  then show ?case by (simp add: remove1_append)
qed

lemma length_remove1_less: "x \<in> set xs \<Longrightarrow> length (remove1 x xs) < length xs"
  by (cases xs) (auto simp: length_remove1 dest: length_pos_if_in_set)

lemma map_of_filter_key:
  "map_of (filter (\<lambda>p. fst p \<noteq> k) ps) = (map_of ps)(k := None)"
  by (induction ps) (auto simp: fun_eq_iff)

lemma map_of_butlast_le: "distinct (map fst ps) \<Longrightarrow> map_of (butlast ps) \<subseteq>\<^sub>m map_of ps"
proof (cases ps rule: rev_cases)
  case (snoc qs q)
  assume "distinct (map fst ps)"
  then show ?thesis
    using snoc by (auto simp: map_le_def map_add_def split: option.split)
qed simp

lemma map_le_trans_upd: "m \<subseteq>\<^sub>m n \<Longrightarrow> m(k \<mapsto> v) \<subseteq>\<^sub>m n(k \<mapsto> v)"
  by (auto simp: map_le_def)

lemma map_le_upd_None: "m(k := None) \<subseteq>\<^sub>m m"
  by (auto simp: map_le_def)

lemma map_leD: "m \<subseteq>\<^sub>m n \<Longrightarrow> m k = Some v \<Longrightarrow> n k = Some v"
  by (force simp: map_le_def)

text \<open>Where an element of a concatenation stands.\<close>

lemma append_eq_elem_cases [consumes 1, case_names left right]:
  assumes "xs @ a # ys = tr @ it"
  obtains us where "tr = xs @ a # us" and "ys = us @ it"
  | us where "xs = tr @ us" and "it = us @ a # ys"
proof -
  from assms consider us where "xs = tr @ us" "us @ a # ys = it"
    | us where "xs @ us = tr" "a # ys = us @ it"
    by (auto simp: append_eq_append_conv2)
  then show thesis
  proof cases
    case (1 us)
    then show ?thesis using that(2) by simp
  next
    case (2 us)
    then show ?thesis using that by (cases us) auto
  qed
qed

lemma append_eq_elem_left:
  assumes "xs @ a # ys = tr @ it" and "a \<notin> set it"
  obtains us where "tr = xs @ a # us" and "ys = us @ it"
  using assms by (cases rule: append_eq_elem_cases) auto

section \<open>Signed arithmetic\<close>

lemma sint_range64: "- (2 ^ 63) \<le> sint (x :: 64 word)" "sint (x :: 64 word) < 2 ^ 63"
  using sint_range_size [of x] by (simp_all add: word_size)

lemma sint_double:
  assumes "- (2 ^ 62) \<le> sint (x :: 64 word)" and "sint x < 2 ^ 62"
  shows "sint (x * 2) = 2 * sint x"
  using assms by (simp add: sint_word_ariths(3) signed_take_bit_int_eq_self)

lemma sint_of_int_small:
  "- (2 ^ 63) \<le> k \<Longrightarrow> k < 2 ^ 63 \<Longrightarrow> sint (word_of_int k :: 64 word) = k"
  by (simp add: sint_sbintrunc' signed_take_bit_int_eq_self)

lemma sint_add_small:
  "- (2 ^ 63) \<le> sint x + sint y \<Longrightarrow> sint x + sint y < 2 ^ 63 \<Longrightarrow>
    sint (x + y :: 64 word) = sint x + sint y"
  by (simp add: sint_word_ariths(1) signed_take_bit_int_eq_self)

lemma sint_diff_small:
  "- (2 ^ 63) \<le> sint x - sint y \<Longrightarrow> sint x - sint y < 2 ^ 63 \<Longrightarrow>
    sint (x - y :: 64 word) = sint x - sint y"
  by (simp add: sint_word_ariths(2) signed_take_bit_int_eq_self)

end
