(* ===== verification/Domain.thy ===== *)
theory Domain
  imports Prelude
begin

text \<open>
  The domain model (\<open>internal/domain/order.go\<close>) and the copy the cache makes of an order
  (\<open>cloneOrder\<close> of \<open>internal/cache/memory/order_cache_helpers.go\<close>).

  Field names carry a letter for their struct where two structs share a name.  A pointer to
  an order is an \<open>order option\<close>, with \<open>None\<close> for \<open>nil\<close>.
\<close>

section \<open>Structs\<close>

record delivery =
  dName :: string
  dPhone :: string
  dZip :: string
  dCity :: string
  dAddress :: string
  dRegion :: string
  dEmail :: string

record payment =
  pTransaction :: string
  pRequestID :: string
  pCurrency :: string
  pProvider :: string
  pAmount :: goint
  pPaymentDT :: "64 word"
  pBank :: string
  pDeliveryCost :: goint
  pGoodsTotal :: goint
  pCustomFee :: goint

record item =
  iChrtID :: goint
  iTrackNumber :: string
  iPrice :: goint
  iRID :: string
  iName :: string
  iSale :: goint
  iSize :: string
  iTotalPrice :: goint
  iNmID :: goint
  iBrand :: string
  iStatus :: goint

record order =
  OrderUID :: string
  TrackNumber :: string
  Entry :: string
  Delivery :: delivery
  Payment :: payment
  Items :: "item slice"
  Locale :: string
  InternalSignature :: string
  CustomerID :: string
  DeliveryService :: string
  ShardKey :: string
  SmID :: goint
  DateCreated :: instant
  OofShard :: string

section \<open>Zero values\<close>

text \<open>What \<open>var order domain.Order\<close> holds before anything is scanned into it.\<close>

definition zero_delivery :: delivery where
  "zero_delivery = \<lparr>dName = [], dPhone = [], dZip = [], dCity = [], dAddress = [],
     dRegion = [], dEmail = []\<rparr>"

definition zero_payment :: payment where
  "zero_payment = \<lparr>pTransaction = [], pRequestID = [], pCurrency = [], pProvider = [],
     pAmount = 0, pPaymentDT = 0, pBank = [], pDeliveryCost = 0, pGoodsTotal = 0,
     pCustomFee = 0\<rparr>"

definition zero_item :: item where
  "zero_item = \<lparr>iChrtID = 0, iTrackNumber = [], iPrice = 0, iRID = [], iName = [], iSale = 0,
     iSize = [], iTotalPrice = 0, iNmID = 0, iBrand = [], iStatus = 0\<rparr>"

definition zero_order :: order where
  "zero_order = \<lparr>OrderUID = [], TrackNumber = [], Entry = [], Delivery = zero_delivery,
     Payment = zero_payment, Items = None, Locale = [], InternalSignature = [],
     CustomerID = [], DeliveryService = [], ShardKey = [], SmID = 0,
     DateCreated = time_zero, OofShard = []\<rparr>"

abbreviation item_list :: "order \<Rightarrow> item list" where
  "item_list o' \<equiv> slice_list (Items o')"

section \<open>Copying an order\<close>

text \<open>
  \<open>append([]domain.Item(nil), order.Items...)\<close> copies the items into a new slice.  With
  nothing to append the result is the \<open>nil\<close> slice it started from, so an allocated but
  empty \<open>Items\<close> becomes \<open>nil\<close> in the copy.
\<close>

definition append_nil :: "'a list \<Rightarrow> 'a slice" where
  "append_nil xs = (if xs = [] then None else Some xs)"

definition cloneOrder :: "order option \<Rightarrow> order option" where
  "cloneOrder p =
     (case p of
        None \<Rightarrow> None
      | Some ord \<Rightarrow>
          (let clonedOrder = ord in
           case Items ord of
             None \<Rightarrow> Some clonedOrder
           | Some xs \<Rightarrow> Some (clonedOrder\<lparr>Items := append_nil xs\<rparr>)))"

text \<open>The order a clone holds, for an order that is there.\<close>

definition clone_of :: "order \<Rightarrow> order" where
  "clone_of ord = the (cloneOrder (Some ord))"

lemma cloneOrder_None [simp]: "cloneOrder None = None"
  by (simp add: cloneOrder_def)

lemma cloneOrder_Some [simp]: "cloneOrder (Some ord) = Some (clone_of ord)"
  by (simp add: clone_of_def cloneOrder_def Let_def split: option.split)

lemma clone_of_eq:
  "clone_of ord = ord\<lparr>Items := (case Items ord of None \<Rightarrow> None | Some xs \<Rightarrow> append_nil xs)\<rparr>"
  by (simp add: clone_of_def cloneOrder_def Let_def split: option.split)

lemma OrderUID_clone_of [simp]: "OrderUID (clone_of ord) = OrderUID ord"
  by (simp add: clone_of_eq)

lemma item_list_clone_of [simp]: "item_list (clone_of ord) = item_list ord"
  by (simp add: clone_of_eq append_nil_def split: option.split)

lemma clone_of_idem [simp]: "clone_of (clone_of ord) = clone_of ord"
  by (simp add: clone_of_eq append_nil_def split: option.split)

lemma clone_of_nonempty: "item_list ord \<noteq> [] \<Longrightarrow> clone_of ord = ord"
  by (auto simp: clone_of_eq append_nil_def split: option.split)


section \<open>Sample data\<close>

text \<open>A complete order, as the tests of the repository build one, for concrete evaluations.\<close>

definition sample_item :: item where
  "sample_item = zero_item\<lparr>iChrtID := 1001, iPrice := 100, iName := ''Widget'', iTotalPrice := 100\<rparr>"

definition sample_order :: "string \<Rightarrow> order" where
  "sample_order uid = zero_order\<lparr>OrderUID := uid, TrackNumber := ''TR'', Entry := ''WBIL'',
     Delivery := zero_delivery\<lparr>dEmail := ''john@example.com''\<rparr>,
     Payment := zero_payment\<lparr>pTransaction := uid, pCurrency := ''USD'', pAmount := 123\<rparr>,
     Items := Some [sample_item], CustomerID := ''cust'', DateCreated := 64 * 10 ^ 18\<rparr>"

lemma sample_order_simps [simp]:
  "OrderUID (sample_order uid) = uid"
  "item_list (sample_order uid) = [sample_item]"
  "CustomerID (sample_order uid) = ''cust''"
  by (simp_all add: sample_order_def)

lemma clone_sample_order [simp]: "clone_of (sample_order uid) = sample_order uid"
  by (rule clone_of_nonempty) simp

end
