(* ===== verification/Cache.thy ===== *)
theory Cache
  imports Domain
begin

text \<open>
  The in-memory order cache: \<open>LRUCacheTTL\<close> of \<open>internal/cache/memory/order_cache.go\<close> and
  its helpers in \<open>order_cache_helpers.go\<close>.

  The state keeps what the Go struct keeps: the doubly linked list of \<open>container/list\<close> as
  the sequence of its elements (front first), the value every element points to, and the
  index from order UID to element.  An element is a heap address, so the index and the list
  share elements as the pointers of the code do, and updating an entry through its element
  changes what both see.  \<open>fresh\<close> is the next address the allocator hands out.

  A list element's value has Go type \<open>any\<close>; the code asserts that it is an \<open>*entry\<close>
  each time it reads one, and both outcomes of the assertion are branches of the model.
  The Prometheus counters and the gauge the operations touch are part of the state.
  Every operation runs under the mutex and is therefore one atomic function; the reading
  of the clock it takes before locking is an argument, so no order between the readings of
  different operations is built in.
\<close>

section \<open>State\<close>

record entry =
  ent_id :: string
  ent_order :: "order option"
  ent_expiresAt :: instant

datatype any_value = EntryVal entry | OtherVal

type_synonym elem = nat

datatype cache_label = Hit | Miss | Evicted | Expired

record cache_metrics =
  CacheOps :: "cache_label \<Rightarrow> nat"
  CacheSize :: int

record lru_cache =
  capacity :: goint
  ttl :: duration
  ll :: "elem list"
  index :: "string \<rightharpoonup> elem"
  elems :: "elem \<Rightarrow> any_value"
  fresh :: elem
  metrics :: cache_metrics

definition no_metrics :: cache_metrics where
  "no_metrics = \<lparr>CacheOps = (\<lambda>_. 0), CacheSize = 0\<rparr>"

definition NewLRUCacheTTL :: "goint \<Rightarrow> duration \<Rightarrow> lru_cache" where
  "NewLRUCacheTTL cap0 ttl0 =
     (let cap1 = (if sint cap0 \<le> 0 then 1 else cap0) in
      \<lparr>capacity = cap1, ttl = ttl0, ll = [], index = Map.empty, elems = (\<lambda>_. OtherVal),
       fresh = 0, metrics = no_metrics\<rparr>)"

section \<open>Metrics and list primitives\<close>

definition inc_op :: "cache_label \<Rightarrow> lru_cache \<Rightarrow> lru_cache" where
  "inc_op l c = c\<lparr>metrics := (metrics c)\<lparr>CacheOps :=
      (CacheOps (metrics c))(l := Suc (CacheOps (metrics c) l))\<rparr>\<rparr>"

definition set_size :: "lru_cache \<Rightarrow> lru_cache" where
  "set_size c = c\<lparr>metrics := (metrics c)\<lparr>CacheSize := int (length (ll c))\<rparr>\<rparr>"

text \<open>\<open>List.MoveToFront\<close>, \<open>List.PushFront\<close>, and the assignment through an element.\<close>

definition move_to_front :: "elem \<Rightarrow> lru_cache \<Rightarrow> lru_cache" where
  "move_to_front e c = (if e \<in> set (ll c) then c\<lparr>ll := e # remove1 e (ll c)\<rparr> else c)"

definition push_front :: "any_value \<Rightarrow> lru_cache \<Rightarrow> elem \<times> lru_cache" where
  "push_front v c =
     (fresh c, c\<lparr>ll := fresh c # ll c, elems := (elems c)(fresh c := v), fresh := Suc (fresh c)\<rparr>)"

definition store_value :: "elem \<Rightarrow> any_value \<Rightarrow> lru_cache \<Rightarrow> lru_cache" where
  "store_value e v c = c\<lparr>elems := (elems c)(e := v)\<rparr>"

definition list_back :: "lru_cache \<Rightarrow> elem option" where
  "list_back c = (if ll c = [] then None else Some (last (ll c)))"

section \<open>Helpers\<close>

fun removeElement :: "elem option \<Rightarrow> lru_cache \<Rightarrow> lru_cache" where
  "removeElement None c = c"
| "removeElement (Some e) c =
     (let c1 = (case elems c e of
                  EntryVal ent \<Rightarrow> c\<lparr>index := (index c)(ent_id ent := None)\<rparr>
                | OtherVal \<Rightarrow> c)
      in c1\<lparr>ll := remove1 e (ll c1)\<rparr>)"

definition evictLRU :: "lru_cache \<Rightarrow> lru_cache" where
  "evictLRU c =
     (case list_back c of
        None \<Rightarrow> c
      | Some b \<Rightarrow> set_size (inc_op Evicted (removeElement (Some b) c)))"

definition isExpired :: "lru_cache \<Rightarrow> entry \<Rightarrow> instant \<Rightarrow> bool" where
  "isExpired c ent now = (if sint (ttl c) \<le> 0 then False else ent_expiresAt ent < now)"

definition expiryFrom :: "lru_cache \<Rightarrow> instant \<Rightarrow> instant" where
  "expiryFrom c now = (if sint (ttl c) \<le> 0 then time_zero else now + sint (ttl c))"

lemma ll_simps [simp]:
  "ll (inc_op l c) = ll c"
  "ll (set_size c) = ll c"
  "ll (store_value e v c) = ll c"
  "ll (removeElement (Some e) c) = remove1 e (ll c)"
  by (simp_all add: inc_op_def set_size_def store_value_def Let_def split: any_value.split)

lemma list_back_length [termination_simp]:
  "list_back c = Some b \<Longrightarrow> length (remove1 b (ll c)) < length (ll c)"
  by (auto simp: list_back_def length_remove1_less split: if_splits)

text \<open>
  The loop of \<open>pruneExpiredFromBack\<close>; every iteration but the last removes the back
  element, so the length of the list decreases.
\<close>

function prune_loop :: "instant \<Rightarrow> lru_cache \<Rightarrow> lru_cache" where
  "prune_loop now c =
     (case list_back c of
        None \<Rightarrow> c
      | Some b \<Rightarrow>
          (case elems c b of
             OtherVal \<Rightarrow> prune_loop now (set_size (removeElement (Some b) c))
           | EntryVal ent \<Rightarrow>
               (if ent_expiresAt ent < now
                then prune_loop now (set_size (inc_op Expired (removeElement (Some b) c)))
                else c)))"
  by pat_completeness auto
termination
  by (relation "measure (\<lambda>(now, c). length (ll c))")
    (simp_all add: list_back_length del: removeElement.simps)

declare prune_loop.simps [simp del]

definition pruneExpiredFromBack :: "instant \<Rightarrow> lru_cache \<Rightarrow> lru_cache" where
  "pruneExpiredFromBack now c = (if sint (ttl c) \<le> 0 then c else prune_loop now c)"

section \<open>Operations\<close>

definition LRU_Get :: "lru_cache \<Rightarrow> instant \<Rightarrow> string \<Rightarrow> (order option \<times> bool) \<times> lru_cache" where
  "LRU_Get c now id' =
     (if id' = [] then ((None, False), inc_op Miss c)
      else case index c id' of
        None \<Rightarrow> ((None, False), inc_op Miss c)
      | Some e \<Rightarrow>
          (case elems c e of
             OtherVal \<Rightarrow>
               ((None, False), set_size (removeElement (Some e) (inc_op Expired c)))
           | EntryVal ent \<Rightarrow>
               (if isExpired c ent now
                then ((None, False), set_size (removeElement (Some e) (inc_op Expired c)))
                else
                  let c1 = move_to_front e c;
                      ent1 = (if 0 < sint (ttl c1)
                              then ent\<lparr>ent_expiresAt := expiryFrom c1 now\<rparr> else ent);
                      c2 = store_value e (EntryVal ent1) c1
                  in ((cloneOrder (ent_order ent1), True), inc_op Hit c2))))"

text \<open>The insertion of a new element, which both ways through \<open>Set\<close> fall into.\<close>

definition insert_new :: "instant \<Rightarrow> order \<Rightarrow> lru_cache \<Rightarrow> lru_cache" where
  "insert_new now ord c =
     (let c1 = pruneExpiredFromBack now c;
          (e, c2) = push_front (EntryVal \<lparr>ent_id = OrderUID ord,
                                         ent_order = cloneOrder (Some ord),
                                         ent_expiresAt = expiryFrom c1 now\<rparr>) c1;
          c3 = c2\<lparr>index := (index c2)(OrderUID ord \<mapsto> e)\<rparr>;
          c4 = set_size c3
      in if sint (capacity c4) < int (length (ll c4)) then evictLRU c4 else c4)"

definition LRU_Set :: "lru_cache \<Rightarrow> instant \<Rightarrow> order option \<Rightarrow> goerror option \<times> lru_cache" where
  "LRU_Set c now p =
     (case p of
        None \<Rightarrow> (Some (Sentinel Memory_ErrInvalidOrder), c)
      | Some ord \<Rightarrow>
          if OrderUID ord = [] then (Some (Sentinel Memory_ErrInvalidOrder), c)
          else case index c (OrderUID ord) of
            None \<Rightarrow> (None, insert_new now ord c)
          | Some e \<Rightarrow>
              (case elems c e of
                 EntryVal ent \<Rightarrow>
                   (None, move_to_front e (store_value e
                      (EntryVal (ent\<lparr>ent_order := cloneOrder (Some ord),
                                     ent_expiresAt := expiryFrom c now\<rparr>)) c))
               | OtherVal \<Rightarrow> (None, insert_new now ord (removeElement (Some e) c))))"

text \<open>
  \<open>WarmUp\<close> looks at the context before each order: \<open>done i\<close> is what \<open>ctx.Err()\<close> is when
  \<open>ctx.Done()\<close> is found closed before the i-th order, and \<open>now i\<close> the clock of the
  i-th \<open>Set\<close>.
\<close>

fun LRU_WarmUp_from ::
    "nat \<Rightarrow> (nat \<Rightarrow> goerror option) \<Rightarrow> (nat \<Rightarrow> instant) \<Rightarrow> lru_cache \<Rightarrow> order option list
     \<Rightarrow> goerror option \<times> lru_cache" where
  "LRU_WarmUp_from i ctx_done now c [] = (None, c)"
| "LRU_WarmUp_from i ctx_done now c (p # ps) =
     (case ctx_done i of
        Some err \<Rightarrow> (Some err, c)
      | None \<Rightarrow>
          (case LRU_Set c (now i) p of
             (Some err, c1) \<Rightarrow> (Some err, c1)
           | (None, c1) \<Rightarrow> LRU_WarmUp_from (Suc i) ctx_done now c1 ps))"

definition LRU_WarmUp ::
    "lru_cache \<Rightarrow> (nat \<Rightarrow> goerror option) \<Rightarrow> (nat \<Rightarrow> instant) \<Rightarrow> order option list
     \<Rightarrow> goerror option \<times> lru_cache" where
  "LRU_WarmUp c ctx_done now ps = LRU_WarmUp_from 0 ctx_done now c ps"

end
