(* ===== verification/Cache_Inv.thy ===== *)
theory Cache_Inv
  imports Cache
begin

text \<open>
  The invariant of the LRU cache, the abstraction of its linked state to the sequence of
  its entries, an abstract LRU-with-TTL specification on such sequences, and the proofs that
  every operation keeps the invariant and implements its abstract counterpart.
\<close>

section \<open>Abstraction and invariant\<close>

definition no_entry :: entry where
  "no_entry = \<lparr>ent_id = [], ent_order = None, ent_expiresAt = time_zero\<rparr>"

primrec the_entry :: "any_value \<Rightarrow> entry" where
  "the_entry (EntryVal ent) = ent"
| "the_entry OtherVal = no_entry"

abbreviation eid :: "lru_cache \<Rightarrow> elem \<Rightarrow> string" where
  "eid c e \<equiv> ent_id (the_entry (elems c e))"

definition entries :: "lru_cache \<Rightarrow> entry list" where
  "entries c = map (\<lambda>e. the_entry (elems c e)) (ll c)"

text \<open>
  A good entry holds a non-nil order under its own, non-empty UID, in the form
  \<open>cloneOrder\<close> leaves it.
\<close>

definition good_entry :: "entry \<Rightarrow> bool" where
  "good_entry ent \<longleftrightarrow>
     ent_id ent \<noteq> [] \<and>
     (case ent_order ent of
        None \<Rightarrow> False
      | Some ord \<Rightarrow> OrderUID ord = ent_id ent \<and> clone_of ord = ord)"

definition good_value :: "any_value \<Rightarrow> bool" where
  "good_value v \<longleftrightarrow> v \<noteq> OtherVal \<and> good_entry (the_entry v)"

definition wf_links :: "lru_cache \<Rightarrow> bool" where
  "wf_links c \<longleftrightarrow>
     distinct (ll c) \<and>
     (\<forall>e \<in> set (ll c). e < fresh c \<and> good_value (elems c e) \<and> index c (eid c e) = Some e) \<and>
     (\<forall>k e. index c k = Some e \<longrightarrow> e \<in> set (ll c) \<and> eid c e = k)"

definition cache_inv :: "lru_cache \<Rightarrow> bool" where
  "cache_inv c \<longleftrightarrow>
     wf_links c \<and> 1 \<le> sint (capacity c) \<and> int (length (ll c)) \<le> sint (capacity c) \<and>
     CacheSize (metrics c) = int (length (ll c))"

lemma good_valueE:
  assumes "good_value v"
  obtains ent ord where "v = EntryVal ent" and "ent_id ent \<noteq> []" and "ent_order ent = Some ord"
    and "OrderUID ord = ent_id ent" and "clone_of ord = ord"
  using assms by (cases v) (auto simp: good_value_def good_entry_def split: option.splits)

lemma wf_linksD:
  assumes "wf_links c"
  shows "distinct (ll c)"
    and "\<And>e. e \<in> set (ll c) \<Longrightarrow> e < fresh c"
    and "\<And>e. e \<in> set (ll c) \<Longrightarrow> good_value (elems c e)"
    and "\<And>e. e \<in> set (ll c) \<Longrightarrow> index c (eid c e) = Some e"
    and "\<And>k e. index c k = Some e \<Longrightarrow> e \<in> set (ll c)"
    and "\<And>k e. index c k = Some e \<Longrightarrow> eid c e = k"
  using assms by (auto simp: wf_links_def)

lemma wf_links_inj: "wf_links c \<Longrightarrow> inj_on (eid c) (set (ll c))"
  by (rule inj_onI) (metis option.inject wf_linksD(4))

lemma eid_eq_iff:
  "wf_links c \<Longrightarrow> e \<in> set (ll c) \<Longrightarrow> e' \<in> set (ll c) \<Longrightarrow> eid c e' = eid c e \<longleftrightarrow> e' = e"
  using inj_onD [OF wf_links_inj] by blast

lemma distinct_ids: "wf_links c \<Longrightarrow> distinct (map ent_id (entries c))"
  by (simp add: entries_def distinct_map comp_def wf_linksD(1) wf_links_inj)

lemma length_entries [simp]: "length (entries c) = length (ll c)"
  by (simp add: entries_def)

section \<open>The abstract cache\<close>

definition find_id :: "string \<Rightarrow> entry list \<Rightarrow> entry option" where
  "find_id k es = find (\<lambda>x. ent_id x = k) es"

definition drop_id :: "string \<Rightarrow> entry list \<Rightarrow> entry list" where
  "drop_id k es = filter (\<lambda>x. ent_id x \<noteq> k) es"

definition spec_expiry :: "duration \<Rightarrow> instant \<Rightarrow> instant" where
  "spec_expiry d now = (if 0 < sint d then now + sint d else time_zero)"

definition spec_prune :: "duration \<Rightarrow> instant \<Rightarrow> entry list \<Rightarrow> entry list" where
  "spec_prune d now es =
     (if 0 < sint d then rev (dropWhile (\<lambda>x. ent_expiresAt x < now) (rev es)) else es)"

definition spec_Get ::
    "duration \<Rightarrow> instant \<Rightarrow> string \<Rightarrow> entry list \<Rightarrow> (order option \<times> bool) \<times> entry list" where
  "spec_Get d now k es =
     (case find_id k es of
        None \<Rightarrow> ((None, False), es)
      | Some x \<Rightarrow>
          if 0 < sint d \<and> ent_expiresAt x < now then ((None, False), drop_id k es)
          else ((ent_order x, True),
                (if 0 < sint d then x\<lparr>ent_expiresAt := now + sint d\<rparr> else x) # drop_id k es))"

definition spec_Set ::
    "goint \<Rightarrow> duration \<Rightarrow> instant \<Rightarrow> order \<Rightarrow> entry list \<Rightarrow> entry list" where
  "spec_Set cap d now ord es =
     (let k = OrderUID ord;
          x = \<lparr>ent_id = k, ent_order = Some (clone_of ord), ent_expiresAt = spec_expiry d now\<rparr>;
          es' = x # (if find_id k es = None then spec_prune d now es else drop_id k es)
      in if sint cap < int (length es') then butlast es' else es')"

lemma find_id_None: "find_id k es = None \<longleftrightarrow> k \<notin> ent_id ` set es"
  by (auto simp: find_id_def find_None_iff)

lemma drop_id_fresh: "find_id k es = None \<Longrightarrow> drop_id k es = es"
  by (auto simp: find_id_None drop_id_def filter_id_conv)

lemma find_id_SomeD: "find_id k es = Some x \<Longrightarrow> x \<in> set es \<and> ent_id x = k"
  by (auto simp: find_id_def find_Some_iff)

lemma find_id_entries:
  assumes "wf_links c"
  shows "find_id k (entries c) = map_option (\<lambda>e. the_entry (elems c e)) (index c k)"
proof (cases "index c k")
  case None
  then have "k \<notin> ent_id ` set (entries c)"
    using wf_linksD(4) [OF assms] by (auto simp: entries_def)
  with None show ?thesis by (simp add: find_id_None)
next
  case (Some e)
  note e = wf_linksD(5,6) [OF assms Some]
  obtain x where x: "find_id k (entries c) = Some x"
    using e by (cases "find_id k (entries c)") (auto simp: find_id_None entries_def)
  then obtain e' where "e' \<in> set (ll c)" "x = the_entry (elems c e')" "eid c e' = k"
    using find_id_SomeD [OF x] by (auto simp: entries_def)
  with e eid_eq_iff [OF assms] Some x show ?thesis by auto
qed

section \<open>Primitive steps on the links\<close>

text \<open>Metrics do not take part in the links.\<close>

lemma metrics_frame [simp]:
  "wf_links (inc_op l c) = wf_links c" "wf_links (set_size c) = wf_links c"
  "entries (inc_op l c) = entries c" "entries (set_size c) = entries c"
  "capacity (inc_op l c) = capacity c" "capacity (set_size c) = capacity c"
  "ttl (inc_op l c) = ttl c" "ttl (set_size c) = ttl c"
  "index (inc_op l c) = index c" "index (set_size c) = index c"
  "elems (inc_op l c) = elems c" "elems (set_size c) = elems c"
  "fresh (inc_op l c) = fresh c" "fresh (set_size c) = fresh c"
  "CacheSize (metrics (inc_op l c)) = CacheSize (metrics c)"
  "CacheSize (metrics (set_size c)) = int (length (ll c))"
  by (simp_all add: inc_op_def set_size_def wf_links_def entries_def)

lemma remove_frame [simp]:
  "capacity (removeElement e c) = capacity c" "ttl (removeElement e c) = ttl c"
  "fresh (removeElement e c) = fresh c" "elems (removeElement e c) = elems c"
  "metrics (removeElement e c) = metrics c"
  by (cases e; simp add: Let_def split: any_value.split)+

lemma remove_index:
  "good_value (elems c e) \<Longrightarrow> index (removeElement (Some e) c) = (index c)(eid c e := None)"
  by (auto simp: Let_def elim: good_valueE)

lemma wf_links_remove:
  assumes wf: "wf_links c" and e: "e \<in> set (ll c)"
  shows "wf_links (removeElement (Some e) c)"
proof -
  have good: "good_value (elems c e)" by (rule wf_linksD(3) [OF wf e])
  show ?thesis
    unfolding wf_links_def remove_index [OF good] ll_simps remove_frame
    using wf_linksD [OF wf] eid_eq_iff [OF wf e]
    by (auto simp: remove1_distinct_filter)
qed

lemma entries_remove:
  assumes wf: "wf_links c" and e: "e \<in> set (ll c)"
  shows "entries (removeElement (Some e) c) = drop_id (eid c e) (entries c)"
  using eid_eq_iff [OF wf e]
  by (auto simp: entries_def drop_id_def filter_map comp_def remove1_distinct_filter
      wf_linksD(1) [OF wf] intro!: arg_cong [where f = "map _"] filter_cong simp del: removeElement.simps)

lemma entries_remove_last:
  assumes wf: "wf_links c" and ne: "ll c \<noteq> []"
  shows "entries (removeElement (Some (last (ll c))) c) = butlast (entries c)"
  using ne remove1_last_distinct [OF ne wf_linksD(1) [OF wf]]
  by (simp add: entries_def map_butlast del: removeElement.simps)


text \<open>Renewing the value of an element in the list and moving the element to the front.\<close>

lemma wf_links_touch:
  assumes wf: "wf_links c" and e: "e \<in> set (ll c)"
    and good: "good_entry ent" and same: "ent_id ent = eid c e"
  shows "wf_links (move_to_front e (store_value e (EntryVal ent) c))"
  using wf_linksD [OF wf] e good same
  by (auto simp: wf_links_def move_to_front_def store_value_def good_value_def)

lemma entries_touch:
  assumes wf: "wf_links c" and e: "e \<in> set (ll c)"
  shows "entries (move_to_front e (store_value e (EntryVal ent) c)) =
    ent # drop_id (eid c e) (entries c)"
  using eid_eq_iff [OF wf e] e
  by (auto simp: entries_def drop_id_def filter_map comp_def remove1_distinct_filter
      wf_linksD(1) [OF wf] move_to_front_def store_value_def
      intro!: map_cong filter_cong)

lemma touch_frame [simp]:
  "capacity (move_to_front e c) = capacity c" "ttl (move_to_front e c) = ttl c"
  "metrics (move_to_front e c) = metrics c"
  "capacity (store_value e v c) = capacity c" "ttl (store_value e v c) = ttl c"
  "metrics (store_value e v c) = metrics c"
  "length (ll (move_to_front e c)) = length (ll c)"
  by (auto simp: move_to_front_def store_value_def length_remove1)
    (metis One_nat_def Suc_pred length_pos_if_in_set)

lemma move_store_swap:
  "store_value e v (move_to_front e c) = move_to_front e (store_value e v c)"
  by (simp add: move_to_front_def store_value_def)

section \<open>Pruning\<close>

lemma list_back_entries: "list_back c = None \<longleftrightarrow> entries c = []"
  by (auto simp: list_back_def entries_def)

lemma dropWhile_rev_snoc:
  "xs \<noteq> [] \<Longrightarrow> rev (dropWhile P (rev xs)) =
    (if P (last xs) then rev (dropWhile P (rev (butlast xs))) else xs)"
  by (cases xs rule: rev_cases) auto

lemma prune_loop_correct:
  assumes "wf_links c"
  shows "wf_links (prune_loop now c) \<and>
    entries (prune_loop now c) = rev (dropWhile (\<lambda>x. ent_expiresAt x < now) (rev (entries c)))"
  using assms
proof (induction now c rule: prune_loop.induct)
  case (1 now c)
  show ?case
  proof (cases "list_back c")
    case None
    then show ?thesis
      using 1(3) list_back_entries [of c] by (subst (1 2) prune_loop.simps) simp
  next
    case (Some b)
    then have ne: "ll c \<noteq> []" and b: "b = last (ll c)" "b \<in> set (ll c)"
      by (auto simp: list_back_def split: if_splits)
    have ne': "entries c \<noteq> []" and lst: "last (entries c) = the_entry (elems c b)"
      using ne b by (auto simp: entries_def last_map)
    from wf_linksD(3) [OF 1(3) b(2)] obtain ent where ent: "elems c b = EntryVal ent"
      by (elim good_valueE)
    show ?thesis
    proof (cases "ent_expiresAt ent < now")
      case True
      let ?c = "set_size (inc_op Expired (removeElement (Some b) c))"
      have wf': "wf_links ?c"
        using wf_links_remove [OF 1(3) b(2)] by (simp del: removeElement.simps)
      have en': "entries (removeElement (Some b) c) = butlast (entries c)"
        using entries_remove_last [OF 1(3) ne] b by (simp del: removeElement.simps)
      show ?thesis
        using 1(1) [OF Some ent True wf'] True ent Some lst
        by (subst (1 2) prune_loop.simps)
          (simp add: en' dropWhile_rev_snoc [OF ne'] del: removeElement.simps)
    next
      case False
      then show ?thesis
        using 1(3) ent Some lst
        by (subst (1 2) prune_loop.simps) (simp add: dropWhile_rev_snoc [OF ne'])
    qed
  qed
qed

lemma prune_loop_frame:
  "capacity (prune_loop now c) = capacity c \<and> ttl (prune_loop now c) = ttl c"
proof (induction now c rule: prune_loop.induct)
  case (1 now c)
  then show ?case
    by (subst (1 2) prune_loop.simps)
      (auto split: option.split any_value.split simp del: removeElement.simps)
qed

lemma prune_correct:
  assumes "wf_links c"
  shows "wf_links (pruneExpiredFromBack now c)"
    and "entries (pruneExpiredFromBack now c) = spec_prune (ttl c) now (entries c)"
  using prune_loop_correct [OF assms, of now] assms
  by (simp_all add: pruneExpiredFromBack_def spec_prune_def)

lemma prune_frame [simp]:
  "capacity (pruneExpiredFromBack now c) = capacity c"
  "ttl (pruneExpiredFromBack now c) = ttl c"
  by (simp_all add: pruneExpiredFromBack_def prune_loop_frame)

lemma set_spec_prune: "set (spec_prune d now es) \<subseteq> set es"
  by (auto simp: spec_prune_def dest: set_dropWhileD)

lemma length_spec_prune: "length (spec_prune d now es) \<le> length es"
  using length_dropWhile_le [of "\<lambda>x. ent_expiresAt x < now" "rev es"]
  by (simp add: spec_prune_def)

lemma find_id_spec_prune: "find_id k es = None \<Longrightarrow> find_id k (spec_prune d now es) = None"
  using set_spec_prune [of d now es] by (auto simp: find_id_None)


section \<open>Operations implement the abstract cache\<close>

lemma find_id_good:
  assumes "wf_links c" and "find_id k (entries c) = Some x"
  shows "good_entry x" and "ent_id x = k" and "cloneOrder (ent_order x) = ent_order x"
proof -
  from assms have "x \<in> set (entries c)" and id: "ent_id x = k"
    by (simp_all add: find_id_SomeD)
  then show g: "good_entry x"
    using wf_linksD(3) [OF assms(1)] by (auto simp: entries_def good_value_def)
  from id show "ent_id x = k" .
  from g show "cloneOrder (ent_order x) = ent_order x"
    by (auto simp: good_entry_def split: option.splits)
qed

lemma LRU_Get_expired:
  assumes "wf_links c" and "index c k = Some e" and "k \<noteq> []"
    and "isExpired c (the_entry (elems c e)) now"
  shows "LRU_Get c now k = ((None, False), set_size (removeElement (Some e) (inc_op Expired c)))"
  using assms wf_linksD(3) [OF assms(1) wf_linksD(5) [OF assms(1,2)]]
  by (auto simp: LRU_Get_def simp del: removeElement.simps elim!: good_valueE)

lemma LRU_Get_hit:
  assumes "wf_links c" and "index c k = Some e" and "k \<noteq> []"
    and "\<not> isExpired c (the_entry (elems c e)) now"
  shows "LRU_Get c now k =
    (let ent = the_entry (elems c e);
         ent1 = (if 0 < sint (ttl c) then ent\<lparr>ent_expiresAt := now + sint (ttl c)\<rparr> else ent)
     in ((cloneOrder (ent_order ent), True),
         inc_op Hit (move_to_front e (store_value e (EntryVal ent1) c))))"
  using assms wf_linksD(3) [OF assms(1) wf_linksD(5) [OF assms(1,2)]]
  by (auto simp: LRU_Get_def Let_def expiryFrom_def move_store_swap elim!: good_valueE)

lemma LRU_Get_miss:
  "k = [] \<or> index c k = None \<Longrightarrow> LRU_Get c now k = ((None, False), inc_op Miss c)"
  by (auto simp: LRU_Get_def)

lemma index_nonempty: "wf_links c \<Longrightarrow> index c k = Some e \<Longrightarrow> k \<noteq> []"
  using wf_linksD(3,5,6) [of c] by (metis good_entry_def good_value_def)

lemma LRU_Get_correct:
  assumes "wf_links c"
  shows "wf_links (snd (LRU_Get c now k))"
    and "(fst (LRU_Get c now k), entries (snd (LRU_Get c now k))) =
         spec_Get (ttl c) now k (entries c)"
proof -
  have "wf_links (snd (LRU_Get c now k)) \<and>
    (fst (LRU_Get c now k), entries (snd (LRU_Get c now k))) =
    spec_Get (ttl c) now k (entries c)"
  proof (cases "index c k")
    case None
    then show ?thesis
      using assms by (simp add: LRU_Get_miss spec_Get_def find_id_entries)
  next
    case (Some e)
    note e = wf_linksD(5,6) [OF assms Some] and ne = index_nonempty [OF assms Some]
    let ?x = "the_entry (elems c e)"
    have x: "find_id k (entries c) = Some ?x"
      using Some by (simp add: find_id_entries [OF assms])
    note good = find_id_good [OF assms x]
    show ?thesis
    proof (cases "isExpired c ?x now")
      case True
      have wf: "wf_links (inc_op Expired c)" and e': "e \<in> set (ll (inc_op Expired c))"
        using assms e by simp_all
      show ?thesis
        using True x wf_links_remove [OF wf e'] entries_remove [OF wf e'] e
        by (auto simp: LRU_Get_expired [OF assms Some ne True] spec_Get_def isExpired_def
            simp del: removeElement.simps split: if_splits)
    next
      case False
      show ?thesis
        using False x good e
        by (auto simp: LRU_Get_hit [OF assms Some ne False] spec_Get_def isExpired_def Let_def
            good_entry_def entries_touch [OF assms e(1)]
            intro!: wf_links_touch [OF assms e(1)] split: if_splits option.splits)
    qed
  qed
  then show "wf_links (snd (LRU_Get c now k))"
    and "(fst (LRU_Get c now k), entries (snd (LRU_Get c now k))) =
         spec_Get (ttl c) now k (entries c)"
    by blast+
qed

lemma LRU_Get_frame:
  "capacity (snd (LRU_Get c now k)) = capacity c" "ttl (snd (LRU_Get c now k)) = ttl c"
  by (auto simp: LRU_Get_def Let_def split: option.split any_value.split simp del: removeElement.simps)

lemma LRU_Get_inv [inv_intros]:
  assumes "cache_inv c"
  shows "cache_inv (snd (LRU_Get c now k))"
proof -
  have wf: "wf_links c" and sz: "CacheSize (metrics c) = int (length (ll c))"
    and cap: "1 \<le> sint (capacity c)" "int (length (ll c)) \<le> sint (capacity c)"
    using assms by (simp_all add: cache_inv_def)
  have "length (ll (snd (LRU_Get c now k))) \<le> length (ll c) \<and>
    CacheSize (metrics (snd (LRU_Get c now k))) = int (length (ll (snd (LRU_Get c now k))))"
    using sz by (auto simp: LRU_Get_def Let_def length_remove1 split: option.split any_value.split
        simp del: removeElement.simps)
  then show ?thesis
    using LRU_Get_correct(1) [OF wf, of now k] cap by (auto simp: cache_inv_def LRU_Get_frame)
qed


text \<open>Linking a fresh element in front, under a UID that is not indexed.\<close>

definition link_new :: "entry \<Rightarrow> lru_cache \<Rightarrow> lru_cache" where
  "link_new ent c =
     (let (e, c2) = push_front (EntryVal ent) c in c2\<lparr>index := (index c2)(ent_id ent \<mapsto> e)\<rparr>)"

lemma link_new_frame [simp]:
  "capacity (link_new ent c) = capacity c" "ttl (link_new ent c) = ttl c"
  "length (ll (link_new ent c)) = Suc (length (ll c))"
  "ll (link_new ent c) = fresh c # ll c"
  "index (link_new ent c) = (index c)(ent_id ent \<mapsto> fresh c)"
  "elems (link_new ent c) = (elems c)(fresh c := EntryVal ent)"
  "fresh (link_new ent c) = Suc (fresh c)"
  by (simp_all add: link_new_def push_front_def)

lemma wf_links_link_new:
  assumes wf: "wf_links c" and good: "good_entry ent" and new: "index c (ent_id ent) = None"
  shows "wf_links (link_new ent c)"
proof -
  have old: "e \<noteq> fresh c \<and> eid c e \<noteq> ent_id ent" if "e \<in> set (ll c)" for e
    using wf_linksD(2,4) [OF wf that] new by (cases "eid c e = ent_id ent") auto
  have "e < Suc (fresh c)" if "e \<in> set (ll c)" for e
    using wf_linksD(2) [OF wf that] by simp
  then show ?thesis
    using wf_linksD(1,3,4,5,6) [OF wf] good old old [of "fresh c"]
    by (auto simp: wf_links_def good_value_def)
qed

lemma entries_link_new:
  assumes wf: "wf_links c"
  shows "entries (link_new ent c) = ent # entries c"
  using wf_linksD(2) [OF wf] by (auto simp: entries_def)

lemma insert_new_eq:
  "insert_new now ord c =
    (let c1 = pruneExpiredFromBack now c;
         c4 = set_size (link_new \<lparr>ent_id = OrderUID ord, ent_order = Some (clone_of ord),
                                 ent_expiresAt = expiryFrom c1 now\<rparr> c1)
     in if sint (capacity c4) < int (length (ll c4)) then evictLRU c4 else c4)"
  by (simp add: insert_new_def link_new_def push_front_def Let_def)

lemma evictLRU_correct:
  assumes wf: "wf_links c" and ne: "ll c \<noteq> []"
  shows "wf_links (evictLRU c)" and "entries (evictLRU c) = butlast (entries c)"
    and "length (ll (evictLRU c)) = length (ll c) - 1"
    and "CacheSize (metrics (evictLRU c)) = int (length (ll (evictLRU c)))"
proof -
  have ev: "evictLRU c = set_size (inc_op Evicted (removeElement (Some (last (ll c))) c))"
    using ne by (simp add: evictLRU_def list_back_def del: removeElement.simps)
  show "wf_links (evictLRU c)"
    using wf_links_remove [OF wf last_in_set [OF ne]] by (simp add: ev del: removeElement.simps)
  show "entries (evictLRU c) = butlast (entries c)"
    using entries_remove_last [OF wf ne] by (simp add: ev del: removeElement.simps)
  show "length (ll (evictLRU c)) = length (ll c) - 1"
    using ne by (simp add: ev length_remove1 del: removeElement.simps)
  show "CacheSize (metrics (evictLRU c)) = int (length (ll (evictLRU c)))"
    by (simp add: ev del: removeElement.simps)
qed

lemma evictLRU_frame [simp]:
  "capacity (evictLRU c) = capacity c" "ttl (evictLRU c) = ttl c"
  by (simp_all add: evictLRU_def split: option.split del: removeElement.simps)

lemma insert_new_correct:
  assumes wf: "wf_links c" and id: "OrderUID ord \<noteq> []" and new: "index c (OrderUID ord) = None"
  shows "wf_links (insert_new now ord c)"
    and "entries (insert_new now ord c) = spec_Set (capacity c) (ttl c) now ord (entries c)"
    and "CacheSize (metrics (insert_new now ord c)) = int (length (ll (insert_new now ord c)))"
proof -
  let ?c1 = "pruneExpiredFromBack now c"
  let ?x = "\<lparr>ent_id = OrderUID ord, ent_order = Some (clone_of ord), ent_expiresAt = expiryFrom ?c1 now\<rparr>"
  let ?c4 = "set_size (link_new ?x ?c1)"
  have none: "find_id (OrderUID ord) (entries c) = None"
    using new by (simp add: find_id_entries [OF wf])
  note wf1 = prune_correct [OF wf, of now]
  have "index ?c1 (OrderUID ord) = None"
    using find_id_spec_prune [OF none, of "ttl c" now] find_id_entries [OF wf1(1)] wf1(2) by simp
  then have wf4: "wf_links ?c4"
    using wf_links_link_new [OF wf1(1), of ?x] id by (simp add: good_entry_def)
  have en4: "entries ?c4 = ?x # spec_prune (ttl c) now (entries c)"
    using entries_link_new [OF wf1(1)] wf1(2) by simp
  have x: "ent_expiresAt ?x = spec_expiry (ttl c) now"
    by (simp add: expiryFrom_def spec_expiry_def)
  have len4: "length (ll ?c4) = length (entries ?c4)" and ne4: "ll ?c4 \<noteq> []"
    by simp_all
  have eq: "insert_new now ord c =
      (if sint (capacity ?c4) < int (length (ll ?c4)) then evictLRU ?c4 else ?c4)"
    by (simp only: insert_new_eq Let_def)
  show "wf_links (insert_new now ord c)"
    unfolding eq using wf4 evictLRU_correct(1) [OF wf4 ne4] by (simp split: if_split)
  show "entries (insert_new now ord c) = spec_Set (capacity c) (ttl c) now ord (entries c)"
    unfolding eq len4 using evictLRU_correct(2) [OF wf4 ne4] en4 x none
    by (simp add: spec_Set_def Let_def del: length_entries split: if_split)
  show "CacheSize (metrics (insert_new now ord c)) = int (length (ll (insert_new now ord c)))"
    unfolding eq using evictLRU_correct(4) [OF wf4 ne4] by (simp split: if_split)
qed

lemma insert_new_frame [simp]:
  "capacity (insert_new now ord c) = capacity c" "ttl (insert_new now ord c) = ttl c"
  by (simp_all add: insert_new_eq Let_def)

lemma LRU_Set_rejects:
  "p = None \<or> p = Some ord \<and> OrderUID ord = [] \<Longrightarrow>
    LRU_Set c now p = (Some (Sentinel Memory_ErrInvalidOrder), c)"
  by (auto simp: LRU_Set_def)

lemma LRU_Set_new:
  "OrderUID ord \<noteq> [] \<Longrightarrow> index c (OrderUID ord) = None \<Longrightarrow>
    LRU_Set c now (Some ord) = (None, insert_new now ord c)"
  by (simp add: LRU_Set_def)

lemma LRU_Set_update:
  assumes "wf_links c" and "index c (OrderUID ord) = Some e"
  shows "LRU_Set c now (Some ord) =
    (None, move_to_front e (store_value e
       (EntryVal \<lparr>ent_id = OrderUID ord, ent_order = Some (clone_of ord),
                  ent_expiresAt = expiryFrom c now\<rparr>) c))"
proof -
  from wf_linksD(3) [OF assms(1) wf_linksD(5) [OF assms]] obtain ent where
    ent: "elems c e = EntryVal ent" by (elim good_valueE)
  have "ent_id ent = OrderUID ord"
    using wf_linksD(6) [OF assms] ent by simp
  then show ?thesis
    using ent assms index_nonempty [OF assms] by (cases ent) (simp add: LRU_Set_def)
qed

lemma length_spec_Set:
  assumes "int (length es) \<le> sint cap" and "1 \<le> sint cap"
  shows "int (length (spec_Set cap d now ord es)) \<le> sint cap"
proof -
  have "length (if find_id (OrderUID ord) es = None then spec_prune d now es
      else drop_id (OrderUID ord) es) \<le> length es"
    by (simp add: length_spec_prune drop_id_def)
  with assms show ?thesis by (simp add: spec_Set_def Let_def)
qed

lemma LRU_Set_correct:
  assumes inv: "cache_inv c" and id: "OrderUID ord \<noteq> []"
  shows "fst (LRU_Set c now (Some ord)) = None"
    and "cache_inv (snd (LRU_Set c now (Some ord)))"
    and "entries (snd (LRU_Set c now (Some ord))) =
         spec_Set (capacity c) (ttl c) now ord (entries c)"
proof -
  from inv have wf: "wf_links c" by (simp add: cache_inv_def)
  let ?r = "LRU_Set c now (Some ord)"
  have "fst ?r = None \<and> cache_inv (snd ?r) \<and>
    entries (snd ?r) = spec_Set (capacity c) (ttl c) now ord (entries c)"
  proof (cases "index c (OrderUID ord)")
    case None
    note new = insert_new_correct [OF wf id None, of now]
    have "int (length (ll (insert_new now ord c))) \<le> sint (capacity c)"
      unfolding length_entries [symmetric]
      unfolding new(2) using inv by (intro length_spec_Set) (simp_all add: cache_inv_def)
    then show ?thesis
      using new inv by (simp add: LRU_Set_new [OF id None] cache_inv_def)
  next
    case (Some e)
    note e = wf_linksD(5,6) [OF wf Some]
    let ?x = "\<lparr>ent_id = OrderUID ord, ent_order = Some (clone_of ord), ent_expiresAt = expiryFrom c now\<rparr>"
    let ?c = "move_to_front e (store_value e (EntryVal ?x) c)"
    have wf': "wf_links ?c"
      using wf_links_touch [OF wf e(1), of ?x] id e(2) by (simp add: good_entry_def)
    have en: "entries ?c = ?x # drop_id (OrderUID ord) (entries c)"
      using entries_touch [OF wf e(1)] e(2) by simp
    have "length (entries ?c) = length (entries c)" by simp
    then have "\<not> sint (capacity c) < int (length (?x # drop_id (OrderUID ord) (entries c)))"
      using inv unfolding en by (simp add: cache_inv_def)
    then have "entries ?c = spec_Set (capacity c) (ttl c) now ord (entries c)"
      using en Some by (simp add: spec_Set_def Let_def find_id_entries [OF wf] expiryFrom_def
          spec_expiry_def not_le split: if_split)
    then show ?thesis
      using wf' inv by (simp add: LRU_Set_update [OF wf Some] cache_inv_def)
  qed
  then show "fst ?r = None" "cache_inv (snd ?r)"
    "entries (snd ?r) = spec_Set (capacity c) (ttl c) now ord (entries c)"
    by blast+
qed

lemma LRU_Set_inv [inv_intros]:
  assumes "cache_inv c"
  shows "cache_inv (snd (LRU_Set c now p))"
proof (cases "\<exists>ord. p = Some ord \<and> OrderUID ord \<noteq> []")
  case True
  then show ?thesis using LRU_Set_correct(2) [OF assms] by blast
next
  case False
  then have "p = None \<or> (\<exists>ord. p = Some ord \<and> OrderUID ord = [])"
    by (cases p) auto
  then have "snd (LRU_Set c now p) = c" using LRU_Set_rejects by fastforce
  then show ?thesis using assms by simp
qed

lemma LRU_Set_frame:
  "capacity (snd (LRU_Set c now p)) = capacity c" "ttl (snd (LRU_Set c now p)) = ttl c"
  by (auto simp: LRU_Set_def split: option.split any_value.split simp del: removeElement.simps)

lemma New_inv [inv_intros]: "cache_inv (NewLRUCacheTTL cap d)"
  by (auto simp: NewLRUCacheTTL_def Let_def cache_inv_def wf_links_def no_metrics_def)

lemma WarmUp_from_inv: "cache_inv c \<Longrightarrow> cache_inv (snd (LRU_WarmUp_from i ctx_done now c ps))"
proof (induction ps arbitrary: i c)
  case (Cons p ps)
  obtain r c1 where r: "LRU_Set c (now i) p = (r, c1)" by force
  then have "cache_inv c1" using LRU_Set_inv [OF Cons.prems, of "now i" p] by simp
  with r Cons show ?case by (simp split: option.split)
qed simp

lemma LRU_WarmUp_inv [inv_intros]: "cache_inv c \<Longrightarrow> cache_inv (snd (LRU_WarmUp c ctx_done now ps))"
  by (simp add: LRU_WarmUp_def WarmUp_from_inv)

end
