(* ===== verification/Cache_Props.thy ===== *)
theory Cache_Props
  imports Cache_Inv
begin

text \<open>
  What the LRU cache guarantees: properties of single operations and of whole histories of
  operations, derived from the refinement of \<open>Cache_Inv\<close>.
\<close>

section \<open>The stored map\<close>

text \<open>The orders the cache holds by UID, expired or not.\<close>

definition stored :: "lru_cache \<Rightarrow> string \<Rightarrow> order option" where
  "stored c k = Option.bind (find_id k (entries c)) ent_order"

definition ids_distinct :: "entry list \<Rightarrow> bool" where
  "ids_distinct es \<longleftrightarrow> distinct (map ent_id es)"

lemma cache_inv_wf: "cache_inv c \<Longrightarrow> wf_links c"
  by (simp add: cache_inv_def)

lemma cache_inv_ids: "cache_inv c \<Longrightarrow> ids_distinct (entries c)"
  by (simp add: ids_distinct_def distinct_ids cache_inv_wf)

lemma find_id_simps [simp]:
  "find_id k [] = None"
  "find_id k (x # es) = (if ent_id x = k then Some x else find_id k es)"
  by (simp_all add: find_id_def)

lemma find_id_mem:
  "ids_distinct es \<Longrightarrow> find_id k es = Some x \<longleftrightarrow> x \<in> set es \<and> ent_id x = k"
  by (induction es) (auto simp: ids_distinct_def)

lemma find_id_subset:
  "ids_distinct es \<Longrightarrow> set es' \<subseteq> set es \<Longrightarrow> find_id k es' = Some x \<Longrightarrow> find_id k es = Some x"
  by (auto simp: find_id_mem dest: find_id_SomeD)

lemma find_id_drop_id: "find_id k (drop_id j es) = (if k = j then None else find_id k es)"
  by (induction es) (auto simp: drop_id_def)

lemma set_drop_id: "set (drop_id k es) = {x \<in> set es. ent_id x \<noteq> k}"
  by (auto simp: drop_id_def)

lemma stored_None:
  assumes "cache_inv c"
  shows "stored c k = None \<longleftrightarrow> find_id k (entries c) = None"
proof (cases "find_id k (entries c)")
  case (Some x)
  from find_id_good(1) [OF cache_inv_wf [OF assms] Some] show ?thesis
    by (auto simp: stored_def Some good_entry_def split: option.splits)
qed (simp add: stored_def)

text \<open>An insertion always leaves the new entry in front of a part of the old ones.\<close>

lemma spec_Set_shape:
  assumes "1 \<le> sint cap"
  obtains rest where
    "spec_Set cap d now ord es =
       \<lparr>ent_id = OrderUID ord, ent_order = Some (clone_of ord), ent_expiresAt = spec_expiry d now\<rparr> # rest"
    and "set rest \<subseteq> {x \<in> set es. ent_id x \<noteq> OrderUID ord}"
proof -
  let ?x = "\<lparr>ent_id = OrderUID ord, ent_order = Some (clone_of ord), ent_expiresAt = spec_expiry d now\<rparr>"
  let ?ys = "if find_id (OrderUID ord) es = None then spec_prune d now es else drop_id (OrderUID ord) es"
  have ys: "set ?ys \<subseteq> {x \<in> set es. ent_id x \<noteq> OrderUID ord}"
    using set_spec_prune [of d now es] by (auto simp: set_drop_id find_id_def find_None_iff)
  show thesis
  proof (cases "sint cap < int (length (?x # ?ys))")
    case True
    then have "?ys \<noteq> []" using assms by auto
    then have "butlast (?x # ?ys) = ?x # butlast ?ys" by simp
    then have "spec_Set cap d now ord es = ?x # butlast ?ys"
      using True by (simp only: spec_Set_def Let_def if_True)
    then show thesis using that ys by (metis (no_types, lifting) in_set_butlastD subset_iff)
  next
    case False
    then have "spec_Set cap d now ord es = ?x # ?ys"
      by (simp only: spec_Set_def Let_def if_False)
    then show thesis using that ys by blast
  qed
qed

lemma stored_Set:
  assumes inv: "cache_inv c" and id: "OrderUID ord \<noteq> []"
  shows "stored (snd (LRU_Set c now (Some ord))) \<subseteq>\<^sub>m (stored c)(OrderUID ord \<mapsto> clone_of ord)"
    and "stored (snd (LRU_Set c now (Some ord))) (OrderUID ord) = Some (clone_of ord)"
proof -
  have cap: "1 \<le> sint (capacity c)" using inv by (simp add: cache_inv_def)
  obtain rest where
    rest: "spec_Set (capacity c) (ttl c) now ord (entries c) =
       \<lparr>ent_id = OrderUID ord, ent_order = Some (clone_of ord),
        ent_expiresAt = spec_expiry (ttl c) now\<rparr> # rest"
    and sub: "set rest \<subseteq> {x \<in> set (entries c). ent_id x \<noteq> OrderUID ord}"
    by (rule spec_Set_shape [OF cap])
  have "set rest \<subseteq> set (entries c)" using sub by blast
  then have "find_id k rest = Some x \<Longrightarrow> find_id k (entries c) = Some x" for k x
    by (rule find_id_subset [OF cache_inv_ids [OF inv]])
  then show "stored (snd (LRU_Set c now (Some ord))) \<subseteq>\<^sub>m (stored c)(OrderUID ord \<mapsto> clone_of ord)"
    by (auto simp: map_le_def stored_def LRU_Set_correct(3) [OF inv id] rest bind_eq_Some_conv
        split: if_splits)
  show "stored (snd (LRU_Set c now (Some ord))) (OrderUID ord) = Some (clone_of ord)"
    by (simp add: stored_def LRU_Set_correct(3) [OF inv id] rest)
qed

lemma stored_Get:
  assumes inv: "cache_inv c"
  shows "stored (snd (LRU_Get c now k)) \<subseteq>\<^sub>m stored c"
    and "fst (LRU_Get c now k) = (Some ord, True) \<Longrightarrow> stored c k = Some ord"
    and "snd (fst (LRU_Get c now k)) = (fst (fst (LRU_Get c now k)) \<noteq> None)"
proof -
  note ref = LRU_Get_correct(2) [OF cache_inv_wf [OF inv], of now k]
  note good = find_id_good [OF cache_inv_wf [OF inv], of k]
  have fst_eq: "fst (LRU_Get c now k) = fst (spec_Get (ttl c) now k (entries c))"
    and snd_eq: "entries (snd (LRU_Get c now k)) = snd (spec_Get (ttl c) now k (entries c))"
    using ref by (metis fst_conv, metis snd_conv)
  show "stored (snd (LRU_Get c now k)) \<subseteq>\<^sub>m stored c"
    by (auto simp: map_le_def stored_def snd_eq spec_Get_def find_id_drop_id bind_eq_Some_conv
        dest: find_id_SomeD split: option.splits if_splits)
  show "fst (LRU_Get c now k) = (Some ord, True) \<Longrightarrow> stored c k = Some ord"
    by (auto simp: stored_def fst_eq spec_Get_def split: option.splits if_splits)
  show "snd (fst (LRU_Get c now k)) = (fst (fst (LRU_Get c now k)) \<noteq> None)"
    using good by (auto simp: fst_eq spec_Get_def good_entry_def split: option.splits if_splits)
qed

section \<open>Histories\<close>

datatype cache_op = DoGet instant string | DoSet instant "order option"

primrec op_time :: "cache_op \<Rightarrow> instant" where
  "op_time (DoGet t k) = t"
| "op_time (DoSet t p) = t"

primrec cache_step :: "lru_cache \<Rightarrow> cache_op \<Rightarrow> lru_cache" where
  "cache_step c (DoGet t k) = snd (LRU_Get c t k)"
| "cache_step c (DoSet t p) = snd (LRU_Set c t p)"

definition cache_run :: "lru_cache \<Rightarrow> cache_op list \<Rightarrow> lru_cache" where
  "cache_run c ops = foldl cache_step c ops"

lemma cache_run_simps [simp]:
  "cache_run c [] = c"
  "cache_run c (op # ops) = cache_run (cache_step c op) ops"
  "cache_run c (ops @ ops') = cache_run (cache_run c ops) ops'"
  by (simp_all add: cache_run_def)

lemma cache_step_inv [inv_intros]: "cache_inv c \<Longrightarrow> cache_inv (cache_step c op)"
  by (cases op) (simp_all add: inv_intros)

lemma run_inv [inv_intros]: "cache_inv c \<Longrightarrow> cache_inv (cache_run c ops)"
  by (induction ops arbitrary: c) (auto intro: inv_intros)

lemma cache_step_frame [simp]:
  "capacity (cache_step c op) = capacity c" "ttl (cache_step c op) = ttl c"
  by (cases op; simp add: LRU_Get_frame LRU_Set_frame)+

lemma cache_run_frame [simp]:
  "capacity (cache_run c ops) = capacity c" "ttl (cache_run c ops) = ttl c"
  by (induction ops arbitrary: c) simp_all

text \<open>in every history of operations, whatever their clock readings, a new cache keeps
  its links consistent (index and list name the same elements, each under the UID of its
  order), never holds more entries than its capacity, and its size gauge equals its number
  of entries.\<close>
theorem cache_history_inv: "cache_inv (cache_run (NewLRUCacheTTL cap d) ops)"
  by (intro inv_intros)

text \<open>The orders last given to \<open>Set\<close> without being rejected, by UID.\<close>

fun last_sets :: "(string \<rightharpoonup> order) \<Rightarrow> cache_op list \<Rightarrow> (string \<rightharpoonup> order)" where
  "last_sets m [] = m"
| "last_sets m (DoSet t (Some ord) # ops) =
     last_sets (if OrderUID ord = [] then m else m(OrderUID ord \<mapsto> ord)) ops"
| "last_sets m (_ # ops) = last_sets m ops"

definition clone_map :: "(string \<rightharpoonup> order) \<Rightarrow> (string \<rightharpoonup> order)" where
  "clone_map m k = map_option clone_of (m k)"

lemma clone_map_upd [simp]: "clone_map (m(k \<mapsto> v)) = (clone_map m)(k \<mapsto> clone_of v)"
  by (rule ext) (simp add: clone_map_def)

lemma stored_step:
  assumes "cache_inv c" and "stored c \<subseteq>\<^sub>m clone_map m"
  shows "stored (cache_step c op) \<subseteq>\<^sub>m clone_map (last_sets m [op])"
proof (cases op)
  case (DoGet t k)
  then show ?thesis using map_le_trans [OF stored_Get(1) [OF assms(1)] assms(2)] by simp
next
  case (DoSet t p)
  show ?thesis
  proof (cases "\<exists>ord. p = Some ord \<and> OrderUID ord \<noteq> []")
    case True
    then obtain ord where p: "p = Some ord" "OrderUID ord \<noteq> []" by blast
    show ?thesis
      using map_le_trans [OF stored_Set(1) [OF assms(1) p(2), of t] map_le_trans_upd [OF assms(2)]]
      by (simp add: DoSet p)
  next
    case False
    then show ?thesis using DoSet assms by (cases p) (auto simp: LRU_Set_def)
  qed
qed

lemma last_sets_Cons: "last_sets m (op # ops) = last_sets (last_sets m [op]) ops"
  by (cases op; cases "case op of DoSet t p \<Rightarrow> p | _ \<Rightarrow> None") auto

lemma stored_run:
  assumes "cache_inv c" and "stored c \<subseteq>\<^sub>m clone_map m"
  shows "stored (cache_run c ops) \<subseteq>\<^sub>m clone_map (last_sets m ops)"
  using assms
proof (induction ops arbitrary: c m)
  case (Cons op ops)
  then show ?case
    using Cons.IH [OF cache_step_inv stored_step] by (subst last_sets_Cons) simp
qed simp

lemma stored_New: "stored (NewLRUCacheTTL cap d) = Map.empty"
  by (auto simp: stored_def entries_def NewLRUCacheTTL_def Let_def)

text \<open>C17: a hit returns a clone of the order that was last given to a successful \<open>Set\<close>
  for that very UID: in no history does the cache return a value of another key, an
  overwritten value, or one never stored.\<close>
theorem cache_hit_is_last_set:
  assumes "fst (LRU_Get (cache_run (NewLRUCacheTTL cap d) ops) now k) = (Some ord, True)"
  shows "\<exists>ord'. last_sets Map.empty ops k = Some ord' \<and> ord = clone_of ord'"
proof -
  let ?c = "cache_run (NewLRUCacheTTL cap d) ops"
  have "cache_inv ?c" by (intro inv_intros)
  then have "stored ?c k = Some ord" using assms by (rule stored_Get(2))
  moreover have "stored ?c \<subseteq>\<^sub>m clone_map (last_sets Map.empty ops)"
    by (rule stored_run) (auto intro: inv_intros simp: stored_New)
  ultimately have "clone_map (last_sets Map.empty ops) k = Some ord"
    by (blast intro: map_leD)
  then show ?thesis by (auto simp: clone_map_def)
qed


lemma cache_hit_is_last_set_witness:
  "\<exists>ord'. last_sets Map.empty [DoSet 0 (Some (sample_order ''A''))] ''A'' = Some ord' \<and>
    sample_order ''A'' = clone_of ord'"
proof -
  have "fst (LRU_Get (cache_run (NewLRUCacheTTL 2 0) [DoSet 0 (Some (sample_order ''A''))]) 5 ''A'') =
      (Some (sample_order ''A''), True)"
    by code_simp
  then show ?thesis by (rule cache_hit_is_last_set)
qed

section \<open>The history as an abstract LRU list\<close>

fun spec_step :: "goint \<Rightarrow> duration \<Rightarrow> entry list \<Rightarrow> cache_op \<Rightarrow> entry list" where
  "spec_step cap d es (DoGet t k) = snd (spec_Get d t k es)"
| "spec_step cap d es (DoSet t None) = es"
| "spec_step cap d es (DoSet t (Some ord)) =
     (if OrderUID ord = [] then es else spec_Set cap d t ord es)"

lemma step_refines:
  assumes "cache_inv c"
  shows "entries (cache_step c op) = spec_step (capacity c) (ttl c) (entries c) op"
proof (cases op)
  case (DoGet t k)
  have "entries (snd (LRU_Get c t k)) = snd (spec_Get (ttl c) t k (entries c))"
    using LRU_Get_correct(2) [OF cache_inv_wf [OF assms], of t k] by (metis snd_conv)
  then show ?thesis by (simp add: DoGet)
next
  case (DoSet t p)
  then show ?thesis
    using LRU_Set_correct(3) [OF assms] LRU_Set_rejects
    by (cases p) (auto simp: LRU_Set_def)
qed

lemma run_refines:
  "cache_inv c \<Longrightarrow>
    entries (cache_run c ops) = foldl (spec_step (capacity c) (ttl c)) (entries c) ops"
  by (induction ops arbitrary: c) (simp_all add: step_refines inv_intros)

lemma New_simps [simp]:
  "capacity (NewLRUCacheTTL cap d) = (if sint cap \<le> 0 then 1 else cap)"
  "ttl (NewLRUCacheTTL cap d) = d" "entries (NewLRUCacheTTL cap d) = []"
  "ll (NewLRUCacheTTL cap d) = []" "metrics (NewLRUCacheTTL cap d) = no_metrics"
  by (simp_all add: NewLRUCacheTTL_def Let_def entries_def)

text \<open>C5: the linked cache refines the abstract LRU list with TTL: after any history its
  entries, front first, are those the specification computes from the history, and the
  next \<open>Get\<close> answers what the specification answers.\<close>
theorem cache_refines_spec:
  "let cap' = (if sint cap \<le> 0 then 1 else cap);
       c = cache_run (NewLRUCacheTTL cap d) ops;
       es = foldl (spec_step cap' d) [] ops
   in entries c = es \<and> fst (LRU_Get c now k) = fst (spec_Get d now k es)"
proof -
  let ?c = "cache_run (NewLRUCacheTTL cap d) ops"
  have inv: "cache_inv ?c" by (intro inv_intros)
  have "entries ?c = foldl (spec_step (if sint cap \<le> 0 then 1 else cap) d) [] ops"
    by (subst run_refines) (simp_all add: inv_intros)
  moreover have "fst (LRU_Get ?c now k) = fst (spec_Get d now k (entries ?c))"
    using LRU_Get_correct(2) [OF cache_inv_wf [OF inv], of now k] by (metis cache_run_frame(2) fst_conv New_simps(2))
  ultimately show ?thesis by (simp add: Let_def)
qed

section \<open>Single operations\<close>

text \<open>an order just stored is returned by a \<open>Get\<close> of its UID that comes no later than
  the TTL allows (at any time, when the TTL is off), and no longer after that.\<close>
theorem Set_then_Get:
  assumes "cache_inv c" and "OrderUID ord \<noteq> []"
  shows "fst (LRU_Get (snd (LRU_Set c now (Some ord))) later (OrderUID ord)) =
    (if sint (ttl c) \<le> 0 \<or> later \<le> now + sint (ttl c)
     then (Some (clone_of ord), True) else (None, False))"
proof -
  let ?c = "snd (LRU_Set c now (Some ord))"
  have cap: "1 \<le> sint (capacity c)" using assms(1) by (simp add: cache_inv_def)
  obtain rest where
    "entries ?c = \<lparr>ent_id = OrderUID ord, ent_order = Some (clone_of ord),
        ent_expiresAt = spec_expiry (ttl c) now\<rparr> # rest"
    by (metis LRU_Set_correct(3) [OF assms] spec_Set_shape [OF cap])
  moreover have "fst (LRU_Get ?c later (OrderUID ord)) =
      fst (spec_Get (ttl c) later (OrderUID ord) (entries ?c))"
    using LRU_Get_correct(2) [of ?c] LRU_Set_inv [OF assms(1)]
    by (metis LRU_Set_frame(2) cache_inv_wf fst_conv)
  ultimately show ?thesis by (auto simp: spec_Get_def spec_expiry_def not_le)
qed

lemma Set_then_Get_witness:
  "fst (LRU_Get (snd (LRU_Set (NewLRUCacheTTL 2 10) 0 (Some (sample_order ''A'')))) 10 ''A'') =
     (Some (sample_order ''A''), True) \<and>
   fst (LRU_Get (snd (LRU_Set (NewLRUCacheTTL 2 10) 0 (Some (sample_order ''A'')))) 11 ''A'') =
     (None, False)"
  using Set_then_Get [OF New_inv, of "sample_order ''A''" 2 10 0 10]
    Set_then_Get [OF New_inv, of "sample_order ''A''" 2 10 0 11]
  by simp

text \<open>storing a new UID in a full cache whose back entry is still valid evicts exactly
  the least recently used entry: every other key keeps its value.\<close>
theorem Set_evicts_least_recent:
  assumes inv: "cache_inv c" and id: "OrderUID ord \<noteq> []"
    and full: "int (length (ll c)) = sint (capacity c)"
    and new: "stored c (OrderUID ord) = None"
    and valid: "\<not> isExpired c (last (entries c)) now"
  shows "entries (snd (LRU_Set c now (Some ord))) =
      \<lparr>ent_id = OrderUID ord, ent_order = Some (clone_of ord),
       ent_expiresAt = expiryFrom c now\<rparr> # butlast (entries c) \<and>
    stored (snd (LRU_Set c now (Some ord))) (ent_id (last (entries c))) = None"
proof -
  have wf: "wf_links c" and ne: "entries c \<noteq> []"
    using inv full by (auto simp: cache_inv_def entries_def)
  have none: "find_id (OrderUID ord) (entries c) = None"
    using new by (simp add: stored_None [OF inv])
  have "spec_prune (ttl c) now (entries c) = entries c"
    using valid ne by (simp add: spec_prune_def dropWhile_rev_snoc isExpired_def split: if_splits)
  then have eq: "entries (snd (LRU_Set c now (Some ord))) =
      \<lparr>ent_id = OrderUID ord, ent_order = Some (clone_of ord),
       ent_expiresAt = expiryFrom c now\<rparr> # butlast (entries c)"
    using full ne none by (simp add: LRU_Set_correct(3) [OF inv id] spec_Set_def Let_def
        spec_expiry_def expiryFrom_def not_le flip: length_entries)
  have "ids_distinct (butlast (entries c) @ [last (entries c)])"
    using cache_inv_ids [OF inv] ne by simp
  then have "find_id (ent_id (last (entries c))) (butlast (entries c)) = None"
    by (auto simp: ids_distinct_def find_id_None)
  moreover have "ent_id (last (entries c)) \<noteq> OrderUID ord"
    using none last_in_set [OF ne] by (metis find_id_None imageI)
  ultimately show ?thesis using eq by (simp add: stored_def)
qed


lemma Set_evicts_least_recent_witness:
  "map ent_id (entries (snd (LRU_Set
     (cache_run (NewLRUCacheTTL 2 0)
        [DoSet 1 (Some (sample_order ''A'')), DoSet 2 (Some (sample_order ''B'')), DoGet 3 ''A''])
     4 (Some (sample_order ''C''))))) = [''C'', ''A'']"
proof -
  let ?c = "cache_run (NewLRUCacheTTL 2 0)
    [DoSet 1 (Some (sample_order ''A'')), DoSet 2 (Some (sample_order ''B'')), DoGet 3 ''A'']"
  have "cache_inv ?c" by (intro inv_intros)
  moreover have "OrderUID (sample_order ''C'') \<noteq> []" by simp
  moreover have "int (length (ll ?c)) = sint (capacity ?c)" by code_simp
  moreover have "stored ?c (OrderUID (sample_order ''C'')) = None" by code_simp
  moreover have "\<not> isExpired ?c (last (entries ?c)) 4" by code_simp
  ultimately have "entries (snd (LRU_Set ?c 4 (Some (sample_order ''C'')))) =
      \<lparr>ent_id = ''C'', ent_order = Some (sample_order ''C''), ent_expiresAt = expiryFrom ?c 4\<rparr> #
      butlast (entries ?c)"
    using Set_evicts_least_recent [of ?c "sample_order ''C''" 4] by simp
  moreover have "map ent_id (butlast (entries ?c)) = [''A'']" by code_simp
  ultimately show ?thesis by simp
qed

section \<open>Expiry under a clock that does not run backwards\<close>

text \<open>
  \<open>pruneExpiredFromBack\<close> stops at the first entry from the back that is still valid.  When
  the readings of the clock do not decrease, the expiry times decrease from front to back,
  so stopping there loses nothing.
\<close>

definition expiry_sorted :: "duration \<Rightarrow> instant \<Rightarrow> entry list \<Rightarrow> bool" where
  "expiry_sorted d t es \<longleftrightarrow>
     sorted_wrt (\<lambda>x y. ent_expiresAt y \<le> ent_expiresAt x) es \<and>
     (\<forall>x \<in> set es. ent_expiresAt x \<le> t + sint d)"

lemma expiry_sorted_filter: "expiry_sorted d t es \<Longrightarrow> expiry_sorted d t (filter P es)"
  by (auto simp: expiry_sorted_def sorted_wrt_filter)

lemma expiry_sorted_Cons:
  "expiry_sorted d t es \<Longrightarrow> t \<le> now \<Longrightarrow> ent_expiresAt x = now + sint d \<Longrightarrow>
    expiry_sorted d now (x # es)"
  by (auto simp: expiry_sorted_def)

lemma expiry_sorted_mono: "expiry_sorted d t es \<Longrightarrow> t \<le> now \<Longrightarrow> expiry_sorted d now es"
  by (auto simp: expiry_sorted_def)

lemma expiry_sorted_prefix: "expiry_sorted d t (xs @ ys) \<Longrightarrow> expiry_sorted d t xs"
  by (auto simp: expiry_sorted_def sorted_wrt_append)

lemma spec_prune_prefix: "\<exists>ys. es = spec_prune d now es @ ys"
proof (cases "0 < sint d")
  case True
  have "rev es = takeWhile (\<lambda>x. ent_expiresAt x < now) (rev es) @ dropWhile (\<lambda>x. ent_expiresAt x < now) (rev es)"
    by simp
  then have "es = rev (dropWhile (\<lambda>x. ent_expiresAt x < now) (rev es)) @
      rev (takeWhile (\<lambda>x. ent_expiresAt x < now) (rev es))"
    by (metis rev_append rev_rev_ident)
  with True show ?thesis by (auto simp: spec_prune_def)
qed (simp add: spec_prune_def)

lemma expiry_sorted_prune: "expiry_sorted d t es \<Longrightarrow> expiry_sorted d t (spec_prune d now es)"
  by (metis expiry_sorted_prefix spec_prune_prefix)

lemma prune_leaves_valid:
  assumes "0 < sint d" and "expiry_sorted d t es" and "x \<in> set (spec_prune d now es)"
  shows "now \<le> ent_expiresAt x"
  using assms
proof (induction es rule: rev_induct)
  case (snoc y es)
  show ?case
  proof (cases "ent_expiresAt y < now")
    case True
    then show ?thesis
      using snoc expiry_sorted_prefix by (fastforce simp: spec_prune_def)
  next
    case False
    then show ?thesis
      using snoc.prems by (auto simp: spec_prune_def expiry_sorted_def sorted_wrt_append)
  qed
qed (simp add: spec_prune_def)

lemma spec_step_expiry_sorted:
  assumes "0 < sint d" and "expiry_sorted d t es" and "t \<le> op_time op" and "1 \<le> sint cap"
  shows "expiry_sorted d (op_time op) (spec_step cap d es op)"
proof -
  note mono = expiry_sorted_mono [OF assms(2,3)]
  show ?thesis
  proof (cases op)
    case (DoGet now k)
    then show ?thesis
      using assms mono expiry_sorted_filter [OF assms(2)]
      by (auto simp: spec_Get_def drop_id_def expiry_sorted_filter intro!: expiry_sorted_Cons
          split: option.split)
  next
    case (DoSet now p)
    show ?thesis
    proof (cases "\<exists>ord. p = Some ord \<and> OrderUID ord \<noteq> []")
      case True
      then obtain ord where p: "p = Some ord" "OrderUID ord \<noteq> []" by blast
      let ?x = "\<lparr>ent_id = OrderUID ord, ent_order = Some (clone_of ord), ent_expiresAt = spec_expiry d now\<rparr>"
      let ?ys = "if find_id (OrderUID ord) es = None then spec_prune d now es else drop_id (OrderUID ord) es"
      have "expiry_sorted d t ?ys"
        using assms(2) by (simp add: expiry_sorted_prune drop_id_def expiry_sorted_filter)
      then have s: "expiry_sorted d now (?x # ?ys)"
        using assms(1,3) DoSet by (intro expiry_sorted_Cons) (simp_all add: spec_expiry_def)
      then have "expiry_sorted d now (butlast (?x # ?ys))"
        by (metis append_butlast_last_id expiry_sorted_prefix list.distinct(1))
      with s show ?thesis
        using DoSet p by (simp add: spec_Set_def Let_def del: butlast.simps)
    next
      case False
      then show ?thesis using DoSet mono by (cases p) auto
    qed
  qed
qed

lemma spec_run_expiry_sorted:
  assumes "0 < sint d" and "1 \<le> sint cap"
  shows "expiry_sorted d t es \<Longrightarrow> sorted (t # map op_time ops) \<Longrightarrow>
    expiry_sorted d (last (t # map op_time ops)) (foldl (spec_step cap d) es ops)"
proof (induction ops arbitrary: es t)
  case (Cons op ops)
  then have "expiry_sorted d (op_time op) (spec_step cap d es op)"
    using spec_step_expiry_sorted [OF assms(1) _ _ assms(2)] by simp
  then show ?case
    using Cons.IH [of "op_time op"] Cons.prems(2) by simp
qed simp

text \<open>with a TTL and clock readings that do not decrease, storing a new UID leaves no
  expired entry anywhere in the cache, although pruning stops at the first valid one.\<close>
theorem Set_prunes_all_expired:
  assumes "0 < sint d" and "sorted (map op_time ops @ [now])"
    and "OrderUID ord \<noteq> []"
    and "stored (cache_run (NewLRUCacheTTL cap d) ops) (OrderUID ord) = None"
    and "x \<in> set (entries (snd (LRU_Set (cache_run (NewLRUCacheTTL cap d) ops) now (Some ord))))"
  shows "now \<le> ent_expiresAt x"
proof -
  let ?c = "cache_run (NewLRUCacheTTL cap d) ops"
  let ?cap = "if sint cap \<le> 0 then 1 else cap"
  have inv: "cache_inv ?c" by (intro inv_intros)
  have es: "entries ?c = foldl (spec_step ?cap d) [] ops"
    by (subst run_refines) (simp_all add: inv_intros)
  have new: "find_id (OrderUID ord) (entries ?c) = None"
    using assms(4) by (simp add: stored_None [OF inv])
  define t where "t = (if ops = [] then now else op_time (hd ops))"
  have "expiry_sorted d (last (t # map op_time ops)) (entries ?c)"
    unfolding es
  proof (rule spec_run_expiry_sorted)
    show "sorted (t # map op_time ops)"
      using assms(2) by (cases ops) (auto simp: t_def sorted_append)
    show "1 \<le> sint ?cap" by simp
  qed (simp_all add: assms(1) expiry_sorted_def)
  then have valid: "now \<le> ent_expiresAt y" if "y \<in> set (spec_prune d now (entries ?c))" for y
    using prune_leaves_valid assms(1) that by blast
  have "x \<in> set (\<lparr>ent_id = OrderUID ord, ent_order = Some (clone_of ord),
      ent_expiresAt = spec_expiry d now\<rparr> # spec_prune d now (entries ?c))"
    using assms(5) new by (auto simp: LRU_Set_correct(3) [OF inv assms(3)] spec_Set_def Let_def
        split: if_splits dest: in_set_butlastD)
  then show ?thesis using valid assms(1) by (auto simp: spec_expiry_def)
qed


lemma Set_prunes_all_expired_witness:
  "list_all (\<lambda>x. 12 \<le> ent_expiresAt x) (entries (snd (LRU_Set
     (cache_run (NewLRUCacheTTL 3 10) [DoSet 0 (Some (sample_order ''A'')), DoSet 6 (Some (sample_order ''B''))])
     12 (Some (sample_order ''C'')))))"
proof -
  let ?ops = "[DoSet 0 (Some (sample_order ''A'')), DoSet 6 (Some (sample_order ''B''))]"
  have "0 < sint (10 :: duration)" by simp
  moreover have "sorted (map op_time ?ops @ [12])" by simp
  moreover have "OrderUID (sample_order ''C'') \<noteq> []" by simp
  moreover have "stored (cache_run (NewLRUCacheTTL 3 10) ?ops) (OrderUID (sample_order ''C'')) = None"
    by code_simp
  ultimately show ?thesis
    using Set_prunes_all_expired [of 10 ?ops 12 "sample_order ''C''" 3] unfolding list_all_iff by blast
qed

section \<open>Metrics\<close>

lemma CacheOps_simps [simp]:
  "CacheOps (metrics (inc_op l c)) = (CacheOps (metrics c))(l := Suc (CacheOps (metrics c) l))"
  "CacheOps (metrics (set_size c)) = CacheOps (metrics c)"
  by (simp_all add: inc_op_def set_size_def)

text \<open>Entries that are in the cache or that a counter says have left it.\<close>

definition accounted :: "lru_cache \<Rightarrow> nat" where
  "accounted c = length (ll c) + CacheOps (metrics c) Evicted + CacheOps (metrics c) Expired"

definition lookups :: "lru_cache \<Rightarrow> nat" where
  "lookups c = CacheOps (metrics c) Hit + CacheOps (metrics c) Miss"

lemma remove_accounted:
  "e \<in> set (ll c) \<Longrightarrow> l = Evicted \<or> l = Expired \<Longrightarrow>
    accounted (set_size (inc_op l (removeElement (Some e) c))) = accounted c"
  using length_pos_if_in_set [of e "ll c"]
  by (auto simp: accounted_def length_remove1 simp del: removeElement.simps)

lemma prune_loop_accounted: "wf_links c \<Longrightarrow> accounted (prune_loop now c) = accounted c"
proof (induction now c rule: prune_loop.induct)
  case (1 now c)
  show ?case
  proof (cases "list_back c")
    case None
    then show ?thesis by (subst prune_loop.simps) simp
  next
    case (Some b)
    then have b: "b \<in> set (ll c)" by (auto simp: list_back_def split: if_splits)
    from wf_linksD(3) [OF 1(3) b] obtain ent where ent: "elems c b = EntryVal ent"
      by (elim good_valueE)
    have wf': "wf_links (set_size (inc_op Expired (removeElement (Some b) c)))"
      using wf_links_remove [OF 1(3) b] by (simp del: removeElement.simps)
    show ?thesis
      using 1(1) [OF Some ent _ wf'] remove_accounted [OF b, of Expired] Some ent
      by (subst prune_loop.simps) (simp del: removeElement.simps)
  qed
qed

lemma insert_new_accounted:
  assumes wf: "wf_links c"
  shows "accounted (insert_new now ord c) = Suc (accounted c)"
proof -
  let ?c1 = "pruneExpiredFromBack now c"
  let ?c4 = "set_size (link_new \<lparr>ent_id = OrderUID ord, ent_order = Some (clone_of ord),
                                 ent_expiresAt = expiryFrom ?c1 now\<rparr> ?c1)"
  have "accounted ?c1 = accounted c"
    using prune_loop_accounted [OF wf] by (simp add: pruneExpiredFromBack_def)
  then have "accounted ?c4 = Suc (accounted c)"
    by (simp add: accounted_def link_new_def push_front_def)
  moreover have "accounted (evictLRU ?c4) = accounted ?c4"
    using remove_accounted [of "last (ll ?c4)" ?c4 Evicted]
    by (simp add: evictLRU_def list_back_def del: removeElement.simps)
  ultimately show ?thesis by (simp add: insert_new_eq Let_def)
qed

lemma touch_accounted: "accounted (move_to_front e (store_value e v c)) = accounted c"
  by (simp add: accounted_def)

lemma Get_accounted:
  assumes wf: "wf_links c"
  shows "accounted (snd (LRU_Get c now k)) = accounted c"
proof (cases "index c k")
  case None
  then show ?thesis by (simp add: LRU_Get_miss accounted_def)
next
  case (Some e)
  note e = wf_linksD(5) [OF wf Some] and ne = index_nonempty [OF wf Some]
  have swap: "CacheOps (metrics (removeElement (Some e) (inc_op Expired c))) =
      CacheOps (metrics (inc_op Expired (removeElement (Some e) c)))"
    by (simp del: removeElement.simps)
  show ?thesis
  proof (cases "isExpired c (the_entry (elems c e)) now")
    case True
    then show ?thesis
      using remove_accounted [OF e, of Expired] swap
      by (simp add: LRU_Get_expired [OF wf Some ne] accounted_def del: removeElement.simps)
  next
    case False
    then show ?thesis
      by (simp add: LRU_Get_hit [OF wf Some ne] Let_def touch_accounted accounted_def)
  qed
qed

lemma stored_index: "cache_inv c \<Longrightarrow> stored c k = None \<longleftrightarrow> index c k = None"
  by (simp add: stored_None find_id_entries cache_inv_wf)

lemma Set_accounted:
  assumes inv: "cache_inv c" and id: "OrderUID ord \<noteq> []"
  shows "accounted (snd (LRU_Set c now (Some ord))) =
    accounted c + (if stored c (OrderUID ord) = None then 1 else 0)"
proof (cases "index c (OrderUID ord)")
  case None
  then show ?thesis
    using insert_new_accounted [OF cache_inv_wf [OF inv]]
    by (simp add: LRU_Set_new [OF id None] stored_index [OF inv])
next
  case (Some e)
  then show ?thesis
    by (simp add: LRU_Set_update [OF cache_inv_wf [OF inv] Some] stored_index [OF inv] touch_accounted)
qed

text \<open>How many operations of a history put a UID into the cache that was not there.\<close>

fun insertions :: "lru_cache \<Rightarrow> cache_op list \<Rightarrow> nat" where
  "insertions c [] = 0"
| "insertions c (DoSet t (Some ord) # ops) =
     (if OrderUID ord \<noteq> [] \<and> stored c (OrderUID ord) = None then 1 else 0) +
     insertions (cache_step c (DoSet t (Some ord))) ops"
| "insertions c (DoGet t k # ops) = insertions (cache_step c (DoGet t k)) ops"
| "insertions c (DoSet t None # ops) = insertions (cache_step c (DoSet t None)) ops"

lemma run_accounted:
  "cache_inv c \<Longrightarrow> accounted (cache_run c ops) = accounted c + insertions c ops"
proof (induction c ops rule: insertions.induct)
  case (2 c t ord ops)
  have inv': "cache_inv (cache_step c (DoSet t (Some ord)))" by (intro inv_intros 2(2))
  show ?case
  proof (cases "OrderUID ord = []")
    case True
    then have "LRU_Set c t (Some ord) = (Some (Sentinel Memory_ErrInvalidOrder), c)"
      by (intro LRU_Set_rejects) simp
    with True 2 show ?thesis by simp
  next
    case False
    then show ?thesis using 2(1) [OF inv'] Set_accounted [OF 2(2) False] by simp
  qed
next
  case (3 c t k ops)
  then show ?case by (simp add: inv_intros Get_accounted cache_inv_wf)
next
  case (4 c t ops)
  then show ?case using LRU_Set_rejects [of None undefined c t] by simp
qed simp

text \<open>C29: the counters lose no entry: over any history from a new cache, the entries ever
  inserted are those still in the cache plus the evicted and the expired ones the counters
  report.\<close>
theorem metrics_account_for_entries:
  "let c = cache_run (NewLRUCacheTTL cap d) ops
   in insertions (NewLRUCacheTTL cap d) ops =
      length (ll c) + CacheOps (metrics c) Evicted + CacheOps (metrics c) Expired"
proof -
  have "accounted (NewLRUCacheTTL cap d) = 0"
    by (simp add: accounted_def no_metrics_def)
  then show ?thesis
    using run_accounted [OF New_inv, of cap d ops] by (simp add: accounted_def Let_def)
qed

section \<open>Warm-up\<close>

text \<open>when the context is cancelled before the i-th order, \<open>WarmUp\<close> returns the
  context's error with exactly the first i orders processed.\<close>
theorem WarmUp_cancelled:
  assumes "i < length ords" and "ctx_done i = Some err" and "\<forall>j < i. ctx_done j = None"
    and "\<forall>ord \<in> set ords. OrderUID ord \<noteq> []" and "cache_inv c"
  shows "LRU_WarmUp c ctx_done now (map Some ords) =
    (Some err, cache_run c (map (\<lambda>j. DoSet (now j) (Some (ords ! j))) [0..<i]))"
proof -
  have "LRU_WarmUp_from k ctx_done now c (map Some ords) =
      (Some err, cache_run c (map (\<lambda>j. DoSet (now (k + j)) (Some (ords ! j))) [0..<i]))"
    if "i < length ords" "ctx_done (k + i) = Some err" "\<forall>j < i. ctx_done (k + j) = None"
      "\<forall>ord \<in> set ords. OrderUID ord \<noteq> []" "cache_inv c" for k c
    using that
  proof (induction ords arbitrary: i k c)
    case (Cons ord ords)
    show ?case
    proof (cases i)
      case (Suc i')
      obtain c1 where c1: "LRU_Set c (now k) (Some ord) = (None, c1)"
        using LRU_Set_correct(1) [OF Cons.prems(5)] Cons.prems(4) by (metis list.set_intros(1) prod.collapse)
      then have inv1: "cache_inv c1"
        using LRU_Set_inv [OF Cons.prems(5), of "now k" "Some ord"] by simp
      have "LRU_WarmUp_from (Suc k) ctx_done now c1 (map Some ords) =
          (Some err, cache_run c1 (map (\<lambda>j. DoSet (now (Suc k + j)) (Some (ords ! j))) [0..<i']))"
      proof (rule Cons.IH)
        show "\<forall>j < i'. ctx_done (Suc k + j) = None"
          using Cons.prems(3) Suc by (metis Suc_less_eq add_Suc_shift)
      qed (use Cons.prems Suc inv1 in simp_all)
      moreover have "[0..<i] = 0 # map Suc [0..<i']"
        using Suc by (simp add: map_Suc_upt upt_conv_Cons del: upt_Suc)
      moreover have "ctx_done k = None"
        using Cons.prems(3) Suc by (metis add_0_right zero_less_Suc)
      ultimately show ?thesis
        using c1 by (simp add: comp_def)
    qed (use Cons.prems in simp)
  qed simp
  from this [of 0 c] assms show ?thesis by (simp add: LRU_WarmUp_def)
qed


lemma WarmUp_cancelled_witness:
  "LRU_WarmUp (NewLRUCacheTTL 5 0)
     (\<lambda>j. if j = 1 then Some (Sentinel Context_Canceled) else None) (\<lambda>j. 0)
     (map Some [sample_order ''A'', sample_order ''B'']) =
   (Some (Sentinel Context_Canceled),
    cache_run (NewLRUCacheTTL 5 0) [DoSet 0 (Some (sample_order ''A''))])"
  using WarmUp_cancelled [of 1 "[sample_order ''A'', sample_order ''B'']"
      "\<lambda>j. if j = 1 then Some (Sentinel Context_Canceled) else None"
      "Sentinel Context_Canceled" "NewLRUCacheTTL 5 0" "\<lambda>j. 0"]
  by (simp add: inv_intros)

lemma take_append_take: "take n (xs @ take n ys) = take n (xs @ ys)"
  by (simp add: min_def)

lemma spec_prune_all_valid:
  "(\<And>x. x \<in> set es \<Longrightarrow> 0 < sint d \<Longrightarrow> now \<le> ent_expiresAt x) \<Longrightarrow> spec_prune d now es = es"
proof (cases es rule: rev_cases)
  case (snoc ys y)
  moreover assume "\<And>x. x \<in> set es \<Longrightarrow> 0 < sint d \<Longrightarrow> now \<le> ent_expiresAt x"
  ultimately have "0 < sint d \<Longrightarrow> \<not> ent_expiresAt y < now" by fastforce
  with snoc show ?thesis by (simp add: spec_prune_def)
qed (simp add: spec_prune_def)

lemma spec_Set_fresh:
  assumes "find_id (OrderUID ord) es = None" and "int (length es) \<le> sint cap" and "1 \<le> sint cap"
    and "spec_prune d now es = es"
  shows "spec_Set cap d now ord es = take (nat (sint cap))
    (\<lparr>ent_id = OrderUID ord, ent_order = Some (clone_of ord), ent_expiresAt = spec_expiry d now\<rparr> # es)"
proof (cases "int (length es) = sint cap")
  case True
  then have n: "nat (sint cap) = length es" and "es \<noteq> []" using assms(3) by auto
  then have "butlast (x # es) = take (length es) (x # es)" for x :: entry
    by (simp add: butlast_conv_take)
  with True n assms(1,4) show ?thesis by (simp add: spec_Set_def Let_def)
next
  case False
  then have "int (length es) < sint cap" using assms(2) by simp
  then show ?thesis using assms(1,4) by (simp add: spec_Set_def Let_def)
qed

lemma WarmUp_from_entries:
  assumes "cache_inv c"
    and "distinct (map OrderUID ords @ map ent_id (entries c))" and "\<forall>ord \<in> set ords. OrderUID ord \<noteq> []"
    and "\<forall>j. ctx_done j = None"
    and "0 < sint (ttl c) \<Longrightarrow> \<forall>x \<in> set (entries c). \<forall>j \<ge> i. now j \<le> ent_expiresAt x"
    and "0 < sint (ttl c) \<Longrightarrow> \<forall>j k. now k \<le> now j + sint (ttl c)"
  shows "fst (LRU_WarmUp_from i ctx_done now c (map Some ords)) = None \<and>
    map ent_id (entries (snd (LRU_WarmUp_from i ctx_done now c (map Some ords)))) =
    take (nat (sint (capacity c))) (rev (map OrderUID ords) @ map ent_id (entries c))"
  using assms
proof (induction ords arbitrary: i c)
  case Nil
  then have "int (length (ll c)) \<le> sint (capacity c)" by (simp add: cache_inv_def)
  then have "length (ll c) \<le> nat (sint (capacity c))" by arith
  then show ?case by simp
next
  case (Cons ord ords)
  let ?x = "\<lparr>ent_id = OrderUID ord, ent_order = Some (clone_of ord),
      ent_expiresAt = spec_expiry (ttl c) (now i)\<rparr>"
  obtain c1 where c1: "LRU_Set c (now i) (Some ord) = (None, c1)"
    using LRU_Set_correct(1) [OF Cons.prems(1)] Cons.prems(3) by (metis list.set_intros(1) prod.collapse)
  have id: "OrderUID ord \<noteq> []" using Cons.prems(3) by simp
  note frame = LRU_Set_frame [of c "now i" "Some ord", unfolded c1 snd_conv]
  have "spec_prune (ttl c) (now i) (entries c) = entries c"
    using Cons.prems(5) by (intro spec_prune_all_valid) blast
  then have en: "entries c1 = take (nat (sint (capacity c))) (?x # entries c)"
    using LRU_Set_correct(3) [OF Cons.prems(1) id, of "now i"] Cons.prems(1,2) c1
    by (simp add: spec_Set_fresh find_id_None cache_inv_def)
  have sub: "set (entries c1) \<subseteq> insert ?x (set (entries c))"
    unfolding en using set_take_subset by fastforce
  then have valid: "0 < sint (ttl c) \<Longrightarrow> \<forall>x \<in> set (entries c1). \<forall>j \<ge> Suc i. now j \<le> ent_expiresAt x"
    using sub Cons.prems(5,6) by (auto simp: spec_expiry_def)
  have "distinct (map ent_id (entries c1))"
    using Cons.prems(2) by (simp add: en take_map [symmetric] distinct_take)
  moreover have "set (map ent_id (entries c1)) \<subseteq> insert (OrderUID ord) (ent_id ` set (entries c))"
    using sub by auto
  moreover have "set (map OrderUID ords) \<inter> insert (OrderUID ord) (ent_id ` set (entries c)) = {}"
    using Cons.prems(2) by auto
  ultimately have "set (map OrderUID ords) \<inter> set (map ent_id (entries c1)) = {}"
    "distinct (map ent_id (entries c1))"
    by blast+
  then have "distinct (map OrderUID ords @ map ent_id (entries c1))"
    using Cons.prems(2) by simp
  moreover have "cache_inv c1"
    using LRU_Set_inv [OF Cons.prems(1), of "now i" "Some ord"] c1 by simp
  ultimately have "fst (LRU_WarmUp_from (Suc i) ctx_done now c1 (map Some ords)) = None \<and>
    map ent_id (entries (snd (LRU_WarmUp_from (Suc i) ctx_done now c1 (map Some ords)))) =
    take (nat (sint (capacity c1))) (rev (map OrderUID ords) @ map ent_id (entries c1))"
    using Cons.prems(3-) valid frame(2) by (intro Cons.IH) simp_all
  moreover have "map ent_id (entries c1) =
      take (nat (sint (capacity c))) (OrderUID ord # map ent_id (entries c))"
    by (simp add: en take_map [symmetric] del: take_Suc_Cons)
  ultimately show ?case
    using c1 frame(1) Cons.prems(4) [rule_format, of i] by (simp add: take_append_take del: take_append)
qed

text \<open>C37: warming a new cache with distinct orders, all within one TTL, keeps the last
  \<open>capacity\<close> orders of the given list, the last one in front: of a list longer than the
  capacity the beginning is lost.\<close>
theorem WarmUp_keeps_end_of_list:
  assumes "distinct (map OrderUID ords)" and "\<forall>ord \<in> set ords. OrderUID ord \<noteq> []"
    and "\<forall>j. ctx_done j = None"
    and "sint d \<le> 0 \<or> (\<forall>j k. now k \<le> now j + sint d)"
  shows "fst (LRU_WarmUp (NewLRUCacheTTL cap d) ctx_done now (map Some ords)) = None \<and>
    map ent_id (entries (snd (LRU_WarmUp (NewLRUCacheTTL cap d) ctx_done now (map Some ords)))) =
    take (if sint cap \<le> 0 then 1 else nat (sint cap)) (rev (map OrderUID ords))"
  using WarmUp_from_entries [OF New_inv [of cap d], of ords ctx_done 0 now] assms
  by (auto simp: LRU_WarmUp_def)

lemma WarmUp_keeps_end_of_list_witness:
  "map ent_id (entries (snd (LRU_WarmUp (NewLRUCacheTTL 2 0) (\<lambda>_. None) (\<lambda>_. 0)
     (map Some [sample_order ''A'', sample_order ''B'', sample_order ''C''])))) = [''C'', ''B'']"
  using WarmUp_keeps_end_of_list [of "[sample_order ''A'', sample_order ''B'', sample_order ''C'']"
      "\<lambda>_. None" 0 "\<lambda>_. 0" 2]
  by simp

end
