(* ===== verification/Aliasing.thy ===== *)
theory Aliasing
  imports Cache_Props
begin

text \<open>
  Pointers to orders: the cache (\<open>internal/cache/memory\<close>) is given pointers and gives pointers out,
  and copies by \<open>cloneOrder\<close> (\<open>order_cache_helpers.go\<close>) at both ends.  The heap has the structs and
  the arrays behind their item slices.  The other theories take orders as values, and this one
  shows that they may: the cache with pointers refines the one of Cache.
\<close>

section \<open>The heap\<close>

type_synonym addr = nat

text \<open>A struct: its fields, of which \<open>Items\<close> is the address of an array, or \<open>nil\<close>.\<close>

record order_cell =
  cell_fields :: order
  items_ref :: "addr option"

record heap =
  h_struct :: "addr \<Rightarrow> order_cell"
  h_array :: "addr \<Rightarrow> item list"
  h_next :: addr

definition order_at :: "heap \<Rightarrow> addr \<Rightarrow> order" where
  "order_at h a = (cell_fields (h_struct h a))\<lparr>Items := map_option (h_array h) (items_ref (h_struct h a))\<rparr>"

definition alloc_struct :: "order_cell \<Rightarrow> heap \<Rightarrow> addr \<times> heap" where
  "alloc_struct cell h =
     (h_next h, h\<lparr>h_struct := (h_struct h)(h_next h := cell), h_next := Suc (h_next h)\<rparr>)"

definition alloc_array :: "item list \<Rightarrow> heap \<Rightarrow> addr \<times> heap" where
  "alloc_array xs h =
     (h_next h, h\<lparr>h_array := (h_array h)(h_next h := xs), h_next := Suc (h_next h)\<rparr>)"

text \<open>\<open>append([]domain.Item(nil), items...)\<close> allocates when there is something to copy.\<close>

definition append_array :: "item list \<Rightarrow> heap \<Rightarrow> addr option \<times> heap" where
  "append_array xs h =
     (if xs = [] then (None, h) else case alloc_array xs h of (r, h1) \<Rightarrow> (Some r, h1))"

definition cloneOrder_ptr :: "addr option \<Rightarrow> heap \<Rightarrow> addr option \<times> heap" where
  "cloneOrder_ptr p h =
     (case p of
        None \<Rightarrow> (None, h)
      | Some a \<Rightarrow>
          (let clonedOrder = h_struct h a in
           case items_ref (h_struct h a) of
             None \<Rightarrow> (case alloc_struct clonedOrder h of (b, h1) \<Rightarrow> (Some b, h1))
           | Some r \<Rightarrow>
               (case append_array (h_array h r) h of (r', h1) \<Rightarrow>
                  (case alloc_struct (clonedOrder\<lparr>items_ref := r'\<rparr>) h1 of (b, h2) \<Rightarrow> (Some b, h2)))))"

section \<open>The cache with pointers\<close>

text \<open>
  The cache of Cache, with the field \<open>order\<close> of the entry behind each list element, which is an
  address.  Links, index, expiry and eviction are those of Cache; what \<open>Set\<close> stores and \<open>Get\<close>
  returns is read through the addresses, and not taken from the orders in the entries of
  \<open>lru_cache\<close>, which are what the theorem below compares with.
\<close>

type_synonym ptr_cache = "lru_cache \<times> (elem \<Rightarrow> addr option) \<times> heap"

definition Set_ptr :: "instant \<Rightarrow> addr option \<Rightarrow> ptr_cache \<Rightarrow> goerror option \<times> ptr_cache" where
  "Set_ptr now p = (\<lambda>(c, m, h).
     case p of
       None \<Rightarrow> (Some (Sentinel Memory_ErrInvalidOrder), (c, m, h))
     | Some a \<Rightarrow>
         (case LRU_Set c now (Some (order_at h a)) of
            (Some err, c1) \<Rightarrow> (Some err, (c1, m, h))
          | (None, c1) \<Rightarrow>
              (case cloneOrder_ptr (Some a) h of
                 (q, h1) \<Rightarrow>
                   (case index c1 (OrderUID (order_at h a)) of
                      None \<Rightarrow> (None, (c1, m, h1))
                    | Some e \<Rightarrow> (None, (c1, m(e := q), h1))))))"

definition Get_ptr :: "instant \<Rightarrow> string \<Rightarrow> ptr_cache \<Rightarrow> (addr option \<times> bool) \<times> ptr_cache" where
  "Get_ptr now uid = (\<lambda>(c, m, h).
     case LRU_Get c now uid of
       ((_, ok), c1) \<Rightarrow>
         (if ok
          then case cloneOrder_ptr (Option.bind (index c uid) m) h of
            (q, h1) \<Rightarrow> ((q, True), (c1, m, h1))
          else ((None, False), (c1, m, h))))"

section \<open>Clients\<close>

text \<open>
  What the rest of the program can do: make orders, hand them to the cache, get orders from it,
  and write through every pointer it has.  A write through another pointer is not possible.
\<close>

datatype client_op =
    C_New order
  | C_Set instant "addr option"
  | C_Get instant string
  | C_Write_struct addr order_cell
  | C_Write_items addr "item list"

text \<open>
  The cache with its heap, the client's pointers, and the calls so far with the orders that were
  given to \<open>Set\<close>, each as it was when it was given.
\<close>

record client_state =
  cs_cache :: ptr_cache
  cs_structs :: "addr set"
  cs_arrays :: "addr set"
  cs_calls :: "cache_op list"

text \<open>The client gets hold of a struct and of the array in it.\<close>

definition learn :: "addr \<Rightarrow> heap \<Rightarrow> client_state \<Rightarrow> client_state" where
  "learn a h s =
     s\<lparr>cs_structs := insert a (cs_structs s),
       cs_arrays := cs_arrays s \<union> set_option (items_ref (h_struct h a))\<rparr>"

definition new_order :: "order \<Rightarrow> heap \<Rightarrow> addr \<times> heap" where
  "new_order ord h =
     (case Items ord of
        None \<Rightarrow> alloc_struct \<lparr>cell_fields = ord, items_ref = None\<rparr> h
      | Some xs \<Rightarrow>
          (case alloc_array xs h of (r, h1) \<Rightarrow> alloc_struct \<lparr>cell_fields = ord, items_ref = Some r\<rparr> h1))"

fun client_step :: "client_op \<Rightarrow> client_state \<Rightarrow> client_state" where
  "client_step (C_New ord) s =
     (case cs_cache s of (c, m, h) \<Rightarrow>
       (case new_order ord h of (a, h1) \<Rightarrow> learn a h1 (s\<lparr>cs_cache := (c, m, h1)\<rparr>)))"
| "client_step (C_Set now p) s =
     (if set_option p \<subseteq> cs_structs s
      then case cs_cache s of (c, m, h) \<Rightarrow>
        (case Set_ptr now p (c, m, h) of
           (_, c1) \<Rightarrow>
             s\<lparr>cs_cache := c1, cs_calls := cs_calls s @ [DoSet now (map_option (order_at h) p)]\<rparr>)
      else s)"
| "client_step (C_Get now uid) s =
     (let s1 = s\<lparr>cs_calls := cs_calls s @ [DoGet now uid]\<rparr> in
      case Get_ptr now uid (cs_cache s) of
        ((None, _), c1) \<Rightarrow> s1\<lparr>cs_cache := c1\<rparr>
      | ((Some a, _), (c1, m1, h1)) \<Rightarrow> learn a h1 (s1\<lparr>cs_cache := (c1, m1, h1)\<rparr>))"
| "client_step (C_Write_struct a cell) s =
     (case cs_cache s of (c, m, h) \<Rightarrow>
       if a \<in> cs_structs s \<and> set_option (items_ref cell) \<subseteq> cs_arrays s
       then s\<lparr>cs_cache := (c, m, h\<lparr>h_struct := (h_struct h)(a := cell)\<rparr>)\<rparr> else s)"
| "client_step (C_Write_items r xs) s =
     (case cs_cache s of (c, m, h) \<Rightarrow>
       if r \<in> cs_arrays s then s\<lparr>cs_cache := (c, m, h\<lparr>h_array := (h_array h)(r := xs)\<rparr>)\<rparr> else s)"

definition empty_heap :: heap where
  "empty_heap =
     \<lparr>h_struct = (\<lambda>_. \<lparr>cell_fields = zero_order, items_ref = None\<rparr>), h_array = (\<lambda>_. []), h_next = 0\<rparr>"

definition client_run :: "goint \<Rightarrow> duration \<Rightarrow> client_op list \<Rightarrow> client_state" where
  "client_run cap d ops =
     fold client_step ops
       \<lparr>cs_cache = (NewLRUCacheTTL cap d, (\<lambda>_. None), empty_heap),
        cs_structs = {}, cs_arrays = {}, cs_calls = []\<rparr>"

section \<open>Clones are new\<close>

text \<open>Nothing that was allocated changes, and the struct at \<open>a\<close> and its array are new.\<close>

definition fresh_copy :: "heap \<Rightarrow> heap \<Rightarrow> addr \<Rightarrow> bool" where
  "fresh_copy h h1 a \<longleftrightarrow>
     h_next h \<le> a \<and> a < h_next h1 \<and>
     (\<forall>r. items_ref (h_struct h1 a) = Some r \<longrightarrow> h_next h \<le> r \<and> r < h_next h1) \<and>
     (\<forall>x < h_next h. h_struct h1 x = h_struct h x \<and> h_array h1 x = h_array h x)"

lemmas alloc_defs = alloc_struct_def alloc_array_def append_array_def

lemma clone_ptr:
  assumes "cloneOrder_ptr (Some a) h = (p, h1)"
  shows "\<exists>b. p = Some b \<and> fresh_copy h h1 b \<and> order_at h1 b = clone_of (order_at h a)"
  using assms
  by (auto simp: cloneOrder_ptr_def alloc_defs fresh_copy_def order_at_def clone_of_eq
      append_nil_def Let_def split: option.splits if_splits)

lemma new_order_ptr: "new_order ord h = (a, h1) \<Longrightarrow> fresh_copy h h1 a"
  by (auto simp: new_order_def alloc_defs fresh_copy_def split: option.splits)

section \<open>Clients cannot reach the cache\<close>

text \<open>A struct that is allocated with its array, and one that the client cannot write to.\<close>

definition allocated :: "heap \<Rightarrow> addr \<Rightarrow> bool" where
  "allocated h a \<longleftrightarrow> a < h_next h \<and> (\<forall>r. items_ref (h_struct h a) = Some r \<longrightarrow> r < h_next h)"

definition hidden :: "heap \<Rightarrow> addr set \<Rightarrow> addr set \<Rightarrow> addr \<Rightarrow> bool" where
  "hidden h S R a \<longleftrightarrow> a \<notin> S \<and> (\<forall>r. items_ref (h_struct h a) = Some r \<longrightarrow> r \<notin> R)"

text \<open>
  The client's structs \<open>S\<close> and arrays \<open>R\<close> are allocated, and the structs \<open>C\<close> of the cache are out
  of its reach.
\<close>

definition separated :: "heap \<Rightarrow> addr set \<Rightarrow> addr set \<Rightarrow> addr set \<Rightarrow> bool" where
  "separated h C S R \<longleftrightarrow>
     (\<forall>a\<in>S. a < h_next h \<and> set_option (items_ref (h_struct h a)) \<subseteq> R) \<and>
     (\<forall>r\<in>R. r < h_next h) \<and> (\<forall>a\<in>C. allocated h a \<and> hidden h S R a)"

lemma separatedD:
  assumes "separated h C S R"
  shows "a \<in> S \<Longrightarrow> a < h_next h"
    and "a \<in> S \<Longrightarrow> items_ref (h_struct h a) = Some r \<Longrightarrow> r \<in> R"
    and "r \<in> R \<Longrightarrow> r < h_next h"
    and "a \<in> C \<Longrightarrow> allocated h a"
    and "a \<in> C \<Longrightarrow> hidden h S R a"
  using assms by (auto simp: separated_def)

lemma separated_mono: "separated h C S R \<Longrightarrow> C' \<subseteq> C \<Longrightarrow> separated h C' S R"
  by (auto simp: separated_def)

lemma fresh_frame:
  assumes "fresh_copy h h1 b"
  shows "allocated h a \<Longrightarrow> order_at h1 a = order_at h a"
    and "a < h_next h \<Longrightarrow> h_struct h1 a = h_struct h a"
    and "allocated h a \<Longrightarrow> allocated h1 a"
    and "allocated h1 b"
    and "h_next h < h_next h1"
proof -
  show "order_at h1 a = order_at h a" if "allocated h a"
    using that assms by (cases "items_ref (h_struct h a)") (auto simp: fresh_copy_def allocated_def order_at_def)
qed (use assms in \<open>auto simp: fresh_copy_def allocated_def\<close>)

text \<open>A new struct is out of everyone's reach; it may be given to the client, and it may be stored.\<close>

lemma separated_fresh:
  assumes sep: "separated h C S R" and new: "fresh_copy h h1 b"
  shows "separated h1 (insert b C) S R"
    and "separated h1 C (insert b S) (R \<union> set_option (items_ref (h_struct h1 b)))"
proof -
  note D = separatedD [OF sep] and F = fresh_frame [OF new]
  have client: "a < h_next h1 \<and> set_option (items_ref (h_struct h1 a)) \<subseteq> R" if "a \<in> S" for a
    using D(1,2) [OF that] F(2,5) by fastforce
  have arrays: "r < h_next h1" if "r \<in> R" for r using D(3) [OF that] F(5) by simp
  have b: "b \<notin> S" "items_ref (h_struct h1 b) = Some r \<Longrightarrow> r \<notin> R \<and> r < h_next h1" for r
    using D(1,3) new by (fastforce simp: fresh_copy_def)+
  have cache: "allocated h1 a" "hidden h1 S R a" "a \<noteq> b"
    "items_ref (h_struct h1 a) = Some r \<Longrightarrow> r < h_next h" if "a \<in> C" for a r
    using D(4,5) [OF that] F(2,3) [of a] new by (auto simp: allocated_def hidden_def fresh_copy_def)
  show "separated h1 (insert b C) S R"
    using client arrays cache b F(4) by (auto simp: separated_def hidden_def)
  have apart: "r \<notin> set_option (items_ref (h_struct h1 b))"
    if "a \<in> C" "items_ref (h_struct h1 a) = Some r" for a r
    using cache(4) [OF that] new by (auto simp: fresh_copy_def)
  have "hidden h1 (insert b S) (R \<union> set_option (items_ref (h_struct h1 b))) a" if "a \<in> C" for a
    using cache(2,3) [OF that] apart [OF that] by (auto simp: hidden_def)
  then show "separated h1 C (insert b S) (R \<union> set_option (items_ref (h_struct h1 b)))"
    using client arrays cache(1) b F(4) unfolding separated_def allocated_def by auto
qed

text \<open>What the client writes to is not what the cache holds.\<close>

lemma separated_write_struct:
  assumes sep: "separated h C S R" and a: "a \<in> S" "set_option (items_ref cell) \<subseteq> R"
  defines "h1 \<equiv> h\<lparr>h_struct := (h_struct h)(a := cell)\<rparr>"
  shows "separated h1 C S R" and "b \<in> C \<Longrightarrow> order_at h1 b = order_at h b"
proof -
  note D = separatedD [OF sep]
  have other: "b \<noteq> a" if "b \<in> C" for b using D(5) [OF that] a(1) by (auto simp: hidden_def)
  then show "b \<in> C \<Longrightarrow> order_at h1 b = order_at h b" by (auto simp: h1_def order_at_def)
  show "separated h1 C S R"
    using sep other a(2) unfolding h1_def by (auto simp: separated_def allocated_def hidden_def)
qed

lemma separated_write_items:
  fixes xs :: "item list"
  assumes sep: "separated h C S R" and r: "r \<in> R"
  defines "h1 \<equiv> h\<lparr>h_array := (h_array h)(r := xs)\<rparr>"
  shows "separated h1 C S R" and "b \<in> C \<Longrightarrow> order_at h1 b = order_at h b"
proof -
  show "separated h1 C S R"
    using sep by (simp add: h1_def separated_def allocated_def hidden_def)
  assume "b \<in> C"
  then show "order_at h1 b = order_at h b"
    using separatedD(5) [OF sep] r
    by (cases "items_ref (h_struct h b)") (auto simp: hidden_def order_at_def h1_def)
qed

section \<open>The index keeps its elements\<close>

lemma map_le_remove: "m' \<subseteq>\<^sub>m m \<Longrightarrow> m'(k := None) \<subseteq>\<^sub>m m"
  by (auto simp: map_le_def)

lemma remove_index_le: "index (removeElement e c) \<subseteq>\<^sub>m index c"
  by (cases e) (auto simp: Let_def map_le_def split: any_value.split)

lemma prune_index_le: "index (pruneExpiredFromBack now c) \<subseteq>\<^sub>m index c"
proof -
  have "index (prune_loop now c) \<subseteq>\<^sub>m index c"
  proof (induction now c rule: prune_loop.induct)
    case (1 now c)
    show ?case
    proof (cases "list_back c")
      case None
      then show ?thesis by (subst prune_loop.simps) simp
    next
      case (Some b)
      note IH = 1 [OF Some]
      show ?thesis
      proof (cases "elems c b")
        case (EntryVal ent)
        show ?thesis
        proof (cases "ent_expiresAt ent < now")
          case True
          have "prune_loop now c = prune_loop now (set_size (inc_op Expired (removeElement (Some b) c)))"
            using Some EntryVal True by (subst prune_loop.simps) (simp del: removeElement.simps)
          then show ?thesis
            using map_le_trans [OF IH(1) [OF EntryVal True]] remove_index_le [of "Some b" c]
            by (simp del: removeElement.simps)
        next
          case False
          then show ?thesis using Some EntryVal by (subst prune_loop.simps) simp
        qed
      next
        case OtherVal
        have "prune_loop now c = prune_loop now (set_size (removeElement (Some b) c))"
          using Some OtherVal by (subst prune_loop.simps) (simp del: removeElement.simps)
        then show ?thesis
          using map_le_trans [OF IH(2) [OF OtherVal]] remove_index_le [of "Some b" c]
          by (simp del: removeElement.simps)
      qed
    qed
  qed
  then show ?thesis by (simp add: pruneExpiredFromBack_def)
qed

lemma insert_index_le: "k \<noteq> OrderUID ord \<Longrightarrow> index (insert_new now ord c) k = Some e \<Longrightarrow> index c k = Some e"
proof -
  have evict: "index (evictLRU c) \<subseteq>\<^sub>m index c" for c
    using remove_index_le by (auto simp: evictLRU_def split: option.split simp del: removeElement.simps)
  assume k: "k \<noteq> OrderUID ord" and e: "index (insert_new now ord c) k = Some e"
  have "index (insert_new now ord c) k = Some e \<Longrightarrow> index (pruneExpiredFromBack now c) k = Some e"
    using k by (auto simp: insert_new_def Let_def push_front_def split: if_splits dest!: map_leD [OF evict])
  then show "index c k = Some e" using e map_leD [OF prune_index_le] by blast
qed

lemma move_index [simp]: "index (move_to_front e c) = index c" "index (store_value e v c) = index c"
  by (simp_all add: move_to_front_def store_value_def)

lemma Set_index:
  assumes "cache_inv c" and "k \<noteq> OrderUID ord"
    and "index (snd (LRU_Set c now (Some ord))) k = Some e"
  shows "index c k = Some e"
proof (cases "OrderUID ord = []")
  case False
  show ?thesis
  proof (cases "index c (OrderUID ord)")
    case None
    have "index (insert_new now ord c) k = Some e" using assms(3) by (simp add: LRU_Set_new [OF False None])
    then show ?thesis by (rule insert_index_le [OF assms(2)])
  next
    case (Some e')
    then show ?thesis
      using assms by (simp add: LRU_Set_update [OF cache_inv_wf [OF assms(1)] Some])
  qed
qed (use assms in \<open>simp add: LRU_Set_def\<close>)

lemma Get_index: "index (snd (LRU_Get c now k)) \<subseteq>\<^sub>m index c"
proof (cases "k = [] \<or> index c k = None")
  case False
  then obtain e where e: "k \<noteq> []" "index c k = Some e" by blast
  have "index (set_size (removeElement (Some e) (inc_op Expired c))) \<subseteq>\<^sub>m index c"
    using remove_index_le [of "Some e" "inc_op Expired c"] by (simp del: removeElement.simps)
  moreover have "snd (LRU_Get c now k) = set_size (removeElement (Some e) (inc_op Expired c)) \<or>
      index (snd (LRU_Get c now k)) = index c"
  proof (cases "elems c e")
    case (EntryVal ent)
    then show ?thesis
      using e by (cases "isExpired c ent now") (simp_all add: LRU_Get_def Let_def del: removeElement.simps)
  next
    case OtherVal
    then show ?thesis using e by (simp add: LRU_Get_def del: removeElement.simps)
  qed
  ultimately show ?thesis by (elim disjE) simp_all
qed (auto simp: LRU_Get_def)

section \<open>Refinement\<close>

text \<open>The struct behind the entry of a UID, and the agreement of the two caches.\<close>

definition struct_of :: "lru_cache \<Rightarrow> (elem \<Rightarrow> addr option) \<Rightarrow> string \<Rightarrow> addr option" where
  "struct_of c m uid = Option.bind (index c uid) m"

definition holds :: "ptr_cache \<Rightarrow> bool" where
  "holds = (\<lambda>(c, m, h).
     cache_inv c \<and> (\<forall>uid. map_option (order_at h) (struct_of c m uid) = stored c uid))"

lemma holdsD:
  assumes "holds (c, m, h)"
  shows "cache_inv c" and "map_option (order_at h) (struct_of c m uid) = stored c uid"
  using assms by (auto simp: holds_def)

text \<open>Only what the entries point to matters.\<close>

lemma holds_frame:
  assumes "holds (c, m, h)" and "\<And>a. a \<in> ran (struct_of c m) \<Longrightarrow> order_at h1 a = order_at h a"
  shows "holds (c, m, h1)"
proof -
  have "map_option (order_at h1) (struct_of c m uid) = map_option (order_at h) (struct_of c m uid)" for uid
    using assms(2) by (cases "struct_of c m uid") (auto simp: ran_def)
  then show ?thesis using assms(1) by (simp add: holds_def)
qed

lemma Set_ptr_holds:
  assumes holds: "holds (c, m, h)" and set: "Set_ptr now p (c, m, h) = (r, c1, m1, h1)"
    and alloc: "\<And>a. a \<in> ran (struct_of c m) \<Longrightarrow> allocated h a"
  shows "r = fst (LRU_Set c now (map_option (order_at h) p))"
    and "c1 = snd (LRU_Set c now (map_option (order_at h) p))"
    and "holds (c1, m1, h1)"
    and "c1 = c \<and> m1 = m \<and> h1 = h \<or>
      (\<exists>b. fresh_copy h h1 b \<and> ran (struct_of c1 m1) \<subseteq> insert b (ran (struct_of c m)))"
proof -
  note inv = holdsD(1) [OF holds]
  have "r = fst (LRU_Set c now (map_option (order_at h) p)) \<and>
    c1 = snd (LRU_Set c now (map_option (order_at h) p)) \<and> holds (c1, m1, h1) \<and>
    (c1 = c \<and> m1 = m \<and> h1 = h \<or>
      (\<exists>b. fresh_copy h h1 b \<and> ran (struct_of c1 m1) \<subseteq> insert b (ran (struct_of c m))))"
  proof (cases "\<exists>a. p = Some a \<and> OrderUID (order_at h a) \<noteq> []")
    case False
    then show ?thesis
      using set holds by (cases p) (auto simp: Set_ptr_def LRU_Set_def)
  next
    case True
    then obtain a where p: "p = Some a" and id: "OrderUID (order_at h a) \<noteq> []" by blast
    define ord where "ord = order_at h a"
    define c' where "c' = snd (LRU_Set c now (Some ord))"
    have id: "OrderUID ord \<noteq> []" using id by (simp add: ord_def)
    note ref = LRU_Set_correct [OF inv id, of now] and st = stored_Set [OF inv id, of now]
    have inv': "cache_inv c'" using ref(2) by (simp add: c'_def)
    have run: "LRU_Set c now (Some ord) = (None, c')" using ref(1) by (simp add: c'_def prod_eq_iff)
    obtain q h2 where clone: "cloneOrder_ptr (Some a) h = (q, h2)" by (cases "cloneOrder_ptr (Some a) h")
    obtain b where q: "q = Some b" and b: "fresh_copy h h2 b" "order_at h2 b = clone_of ord"
      using clone_ptr [OF clone] by (auto simp: ord_def)
    have "stored c' (OrderUID ord) \<noteq> None" using st(2) by (simp add: c'_def)
    then obtain e where e: "index c' (OrderUID ord) = Some e" using stored_index [OF inv'] by auto
    have res: "r = None" "c1 = c'" "m1 = m(e \<mapsto> b)" "h1 = h2"
      using set run clone q e by (auto simp: Set_ptr_def p ord_def)
    have other: "struct_of c' (m(e \<mapsto> b)) k = (if index c' k = None then None else struct_of c m k)"
      if k: "k \<noteq> OrderUID ord" for k
    proof (cases "index c' k")
      case (Some e')
      have "e' \<noteq> e" using wf_linksD(6) [OF cache_inv_wf [OF inv']] Some e k by metis
      moreover have "index c k = Some e'" using Set_index [OF inv k] Some by (simp add: c'_def)
      ultimately show ?thesis using Some by (simp add: struct_of_def)
    qed (simp add: struct_of_def)
    have same: "map_option (order_at h2) (struct_of c m k) = stored c k" for k
    proof -
      have "holds (c, m, h2)" by (rule holds_frame [OF holds]) (simp add: alloc fresh_frame(1) [OF b(1)])
      then show ?thesis by (rule holdsD(2))
    qed
    have "map_option (order_at h2) (struct_of c' (m(e \<mapsto> b)) k) = stored c' k" for k
    proof (cases "k = OrderUID ord")
      case True
      then show ?thesis using st(2) e b(2) by (simp add: struct_of_def c'_def)
    next
      case False
      show ?thesis
      proof (cases "stored c' k")
        case None
        then have "index c' k = None" using stored_index [OF inv'] by simp
        then show ?thesis using None other [OF False] by simp
      next
        case (Some v)
        then have "index c' k \<noteq> None" using stored_index [OF inv', of k] by simp
        then have "struct_of c' (m(e \<mapsto> b)) k = struct_of c m k"
          unfolding other [OF False] by auto
        moreover have "stored c k = Some v" using map_leD [OF st(1)] Some False by (fastforce simp: c'_def)
        ultimately have "struct_of c' (m(e \<mapsto> b)) k = struct_of c m k" "stored c' k = stored c k"
          using Some by simp_all
        then show ?thesis by (simp only: same)
      qed
    qed
    then have "holds (c1, m1, h1)" using inv' by (simp add: holds_def res)
    moreover have "ran (struct_of c1 m1) \<subseteq> insert b (ran (struct_of c m))"
    proof
      fix x
      assume "x \<in> ran (struct_of c1 m1)"
      then obtain k where k: "struct_of c' (m(e \<mapsto> b)) k = Some x" by (auto simp: ran_def res)
      show "x \<in> insert b (ran (struct_of c m))"
      proof (cases "k = OrderUID ord")
        case True
        then show ?thesis using k e by (simp add: struct_of_def)
      next
        case False
        then show ?thesis using k other [OF False] by (auto simp: ran_def split: if_splits)
      qed
    qed
    ultimately show ?thesis using res run b(1) by (auto simp: p ord_def [symmetric])
  qed
  then show "r = fst (LRU_Set c now (map_option (order_at h) p))"
    "c1 = snd (LRU_Set c now (map_option (order_at h) p))" "holds (c1, m1, h1)"
    "c1 = c \<and> m1 = m \<and> h1 = h \<or>
      (\<exists>b. fresh_copy h h1 b \<and> ran (struct_of c1 m1) \<subseteq> insert b (ran (struct_of c m)))"
    by blast+
qed

lemma Get_ptr_holds:
  assumes holds: "holds (c, m, h)" and get: "Get_ptr now uid (c, m, h) = ((p, ok), c1, m1, h1)"
    and alloc: "\<And>a. a \<in> ran (struct_of c m) \<Longrightarrow> allocated h a"
  shows "(map_option (order_at h1) p, ok) = fst (LRU_Get c now uid)"
    and "c1 = snd (LRU_Get c now uid)"
    and "holds (c1, m1, h1)"
    and "ran (struct_of c1 m1) \<subseteq> ran (struct_of c m)"
    and "p = None \<and> h1 = h \<or> (\<exists>b. p = Some b \<and> fresh_copy h h1 b)"
proof -
  note inv = holdsD(1) [OF holds]
  note st = stored_Get [OF inv, of now uid]
  define c' where "c' = snd (LRU_Get c now uid)"
  obtain v ok' where run: "LRU_Get c now uid = ((v, ok'), c')"
    by (metis c'_def prod.collapse)
  have inv': "cache_inv c'" using cache_step_inv [OF inv, of "DoGet now uid"] by (simp add: c'_def)
  have c1: "c1 = c'" "m1 = m" "ok = ok'" using get by (auto simp: Get_ptr_def run split: if_splits prod.splits)
  have keep: "struct_of c' m k = (if index c' k = None then None else struct_of c m k)" for k
    using map_leD [OF Get_index, of c now uid k] by (auto simp: struct_of_def c'_def)
  then have sub: "ran (struct_of c' m) \<subseteq> ran (struct_of c m)" by (auto simp: ran_def split: if_splits)
  have "map_option (order_at h) (struct_of c' m k) = stored c' k" for k
  proof (cases "stored c' k")
    case None
    then show ?thesis using stored_index [OF inv', of k] by (simp add: keep)
  next
    case (Some w)
    then have "index c' k \<noteq> None" using stored_index [OF inv', of k] by simp
    then have "struct_of c' m k = struct_of c m k" unfolding keep by auto
    moreover have "stored c k = Some w" using map_leD [OF st(1)] Some by (simp add: c'_def)
    ultimately show ?thesis using Some holdsD(2) [OF holds, of k] by simp
  qed
  then have kept: "holds (c', m, h)" using inv' by (simp add: holds_def)
  have "(map_option (order_at h1) p, ok) = (v, ok') \<and> holds (c', m, h1) \<and>
    (p = None \<and> h1 = h \<or> (\<exists>b. p = Some b \<and> fresh_copy h h1 b))"
  proof (cases ok')
    case False
    then have "v = None" using st(3) by (simp add: run)
    then show ?thesis using get False kept by (simp add: Get_ptr_def run)
  next
    case True
    then obtain ord where v: "v = Some ord" using st(3) by (auto simp: run)
    have "stored c uid = Some ord" using st(2) [of ord] by (simp add: run v True)
    then obtain a where a: "struct_of c m uid = Some a" "order_at h a = ord"
      using holdsD(2) [OF holds, of uid] by auto
    obtain q h2 where clone: "cloneOrder_ptr (Some a) h = (q, h2)" by (cases "cloneOrder_ptr (Some a) h")
    obtain b where q: "q = Some b" and b: "fresh_copy h h2 b" "order_at h2 b = clone_of ord"
      using clone_ptr [OF clone] a(2) by auto
    have eq: "p = Some b" "h1 = h2"
      using get clone a(1) by (simp_all add: Get_ptr_def run True struct_of_def q)
    have "good_entry x" if "find_id uid (entries c) = Some x" for x
      by (rule find_id_good(1) [OF cache_inv_wf [OF inv] that])
    then have "clone_of ord = ord"
      using \<open>stored c uid = Some ord\<close> by (auto simp: stored_def bind_eq_Some_conv good_entry_def)
    moreover have "holds (c', m, h2)"
      by (rule holds_frame [OF kept]) (use sub alloc fresh_frame(1) [OF b(1)] in blast)
    ultimately show ?thesis using True v b c1(3) by (auto simp: eq)
  qed
  then show "(map_option (order_at h1) p, ok) = fst (LRU_Get c now uid)"
    "c1 = snd (LRU_Get c now uid)" "holds (c1, m1, h1)"
    "ran (struct_of c1 m1) \<subseteq> ran (struct_of c m)"
    "p = None \<and> h1 = h \<or> (\<exists>b. p = Some b \<and> fresh_copy h h1 b)"
    using sub by (simp_all add: run c1)
qed

text \<open>The invariant of a client's steps, from a cache \<open>c0\<close>.\<close>

definition client_inv :: "lru_cache \<Rightarrow> client_state \<Rightarrow> bool" where
  "client_inv c0 s = (case cs_cache s of (c, m, h) \<Rightarrow>
     c = cache_run c0 (cs_calls s) \<and> holds (c, m, h) \<and>
     separated h (ran (struct_of c m)) (cs_structs s) (cs_arrays s))"

lemma client_invD:
  assumes "client_inv c0 s" and "cs_cache s = (c, m, h)"
  shows "c = cache_run c0 (cs_calls s)" and "holds (c, m, h)"
    and "separated h (ran (struct_of c m)) (cs_structs s) (cs_arrays s)"
  using assms by (auto simp: client_inv_def)

lemma client_step_inv:
  assumes inv: "client_inv c0 s"
  shows "client_inv c0 (client_step op s)"
proof -
  obtain c m h where s: "cs_cache s = (c, m, h)" by (cases "cs_cache s")
  have c: "c = cache_run c0 (cs_calls s)" and holds: "holds (c, m, h)"
    and sep: "separated h (ran (struct_of c m)) (cs_structs s) (cs_arrays s)"
    using client_invD [OF inv s] by blast+
  have alloc: "a \<in> ran (struct_of c m) \<Longrightarrow> allocated h a" for a by (rule separatedD(4) [OF sep])
  show ?thesis
  proof (cases op)
    case (C_New ord)
    obtain a h1 where new: "new_order ord h = (a, h1)" by (cases "new_order ord h")
    note fresh = new_order_ptr [OF new]
    have "holds (c, m, h1)" by (rule holds_frame [OF holds]) (use alloc fresh_frame(1) [OF fresh] in blast)
    then show ?thesis
      using separated_fresh(2) [OF sep fresh] by (simp add: C_New s new client_inv_def learn_def c [symmetric])
  next
    case (C_Set now p)
    show ?thesis
    proof (cases "set_option p \<subseteq> cs_structs s")
      case True
      obtain r c1 m1 h1 where set: "Set_ptr now p (c, m, h) = (r, c1, m1, h1)"
        by (cases "Set_ptr now p (c, m, h)")
      note S = Set_ptr_holds [OF holds set alloc]
      have "separated h1 (ran (struct_of c1 m1)) (cs_structs s) (cs_arrays s)"
        using S(4) sep separated_mono [OF separated_fresh(1) [OF sep]] by blast
      then show ?thesis
        using S(2,3) True by (simp add: C_Set s set client_inv_def c [symmetric])
    qed (use inv in \<open>simp add: C_Set\<close>)
  next
    case (C_Get now uid)
    obtain p ok c1 m1 h1 where get: "Get_ptr now uid (c, m, h) = ((p, ok), c1, m1, h1)"
      by (metis prod.exhaust)
    note G = Get_ptr_holds [OF holds get alloc]
    have sep1: "separated h (ran (struct_of c1 m1)) (cs_structs s) (cs_arrays s)"
      by (rule separated_mono [OF sep G(4)])
    show ?thesis
    proof (cases p)
      case None
      then show ?thesis using G(2,3,5) sep1 by (simp add: C_Get s get client_inv_def Let_def c [symmetric])
    next
      case (Some b)
      then show ?thesis
        using G(2,3,5) separated_fresh(2) [OF sep1]
        by (auto simp: C_Get s get client_inv_def Let_def learn_def c [symmetric])
    qed
  next
    case (C_Write_struct a cell)
    then show ?thesis
      using separated_write_struct [OF sep, where a = a and cell = cell] holds_frame [OF holds] inv
      by (simp add: s client_inv_def c [symmetric])
  next
    case (C_Write_items r xs)
    then show ?thesis
      using separated_write_items [OF sep, where r = r and xs = xs] holds_frame [OF holds] inv
      by (simp add: s client_inv_def c [symmetric])
  qed
qed

lemma client_run_inv: "client_inv (NewLRUCacheTTL cap d) (client_run cap d ops)"
proof -
  let ?c = "NewLRUCacheTTL cap d"
  have "client_inv ?c s \<Longrightarrow> client_inv ?c (fold client_step ops s)" for s
    by (induction ops arbitrary: s) (simp_all add: client_step_inv)
  moreover have "struct_of ?c (\<lambda>_. None) = Map.empty"
    by (rule ext) (simp add: struct_of_def NewLRUCacheTTL_def Let_def)
  ultimately show ?thesis
    by (simp add: client_run_def client_inv_def holds_def New_inv stored_New separated_def)
qed

text \<open>C9: whatever the rest of the program writes through the pointers it has, those it gave to the
  cache and those it got from it included, a \<open>Get\<close> answers what the cache of values answers after
  the same calls: the pointer it returns leads to the very order, and the flag is the same.\<close>
theorem client_writes_do_not_reach_cache:
  "(case Get_ptr now uid (cs_cache (client_run cap d ops)) of
      ((p, ok), _, _, h) \<Rightarrow> (map_option (order_at h) p, ok)) =
   fst (LRU_Get (cache_run (NewLRUCacheTTL cap d) (cs_calls (client_run cap d ops))) now uid)"
proof -
  obtain c m h where s: "cs_cache (client_run cap d ops) = (c, m, h)" by (metis prod.exhaust)
  have "c = cache_run (NewLRUCacheTTL cap d) (cs_calls (client_run cap d ops))" "holds (c, m, h)"
    "separated h (ran (struct_of c m)) (cs_structs (client_run cap d ops)) (cs_arrays (client_run cap d ops))"
    using client_invD [OF client_run_inv s] by blast+
  moreover obtain p ok c1 m1 h1 where "Get_ptr now uid (c, m, h) = ((p, ok), c1, m1, h1)"
    by (metis prod.exhaust)
  ultimately show ?thesis
    using Get_ptr_holds(1) [of c m h now uid p ok c1 m1 h1] separatedD(4) by (simp add: s)
qed

text \<open>A client that overwrites the order it gave to the cache, its items, and the copy it got back.\<close>

definition rude_client :: "client_op list" where
  "rude_client =
     [C_New (sample_order ''A''), C_Set 0 (Some 1), C_Write_items 0 [], C_Get 1 ''A'', C_Write_items 4 [],
      C_Write_struct 5 \<lparr>cell_fields = zero_order, items_ref = None\<rparr>]"

lemma client_writes_do_not_reach_cache_witness:
  "(case Get_ptr 2 ''A'' (cs_cache (client_run 1 0 rude_client)) of
      ((p, ok), _, _, h) \<Rightarrow> (map_option (order_at h) p, ok)) = (Some (sample_order ''A''), True)"
proof -
  have "fst (LRU_Get (cache_run (NewLRUCacheTTL 1 0) (cs_calls (client_run 1 0 rude_client))) 2 ''A'') =
      (Some (sample_order ''A''), True)"
    by code_simp
  then show ?thesis unfolding client_writes_do_not_reach_cache .
qed

end
