(* ===== verification/Go_Strings.thy ===== *)
theory Go_Strings
  imports Prelude
begin

text \<open>
  What the program uses of Go's \<open>strings\<close> and \<open>strconv\<close> packages, on byte strings.
\<close>

section \<open>Bytes\<close>

definition byte :: "char \<Rightarrow> nat" where
  "byte ch = of_char ch"

section \<open>\<open>strings.TrimSpace\<close>\<close>

text \<open>
  The UTF-8 encodings of the code points that \<open>unicode.IsSpace\<close> accepts.  No encoding is a
  prefix or a suffix of another, so stripping encodings is stripping code points.
\<close>

definition space_encodings :: "string list" where
  "space_encodings =
    [[CHR 0x09], [CHR 0x0A], [CHR 0x0B], [CHR 0x0C], [CHR 0x0D], [CHR 0x20],
     [CHR 0xC2, CHR 0x85], [CHR 0xC2, CHR 0xA0], [CHR 0xE1, CHR 0x9A, CHR 0x80],
     [CHR 0xE2, CHR 0x80, CHR 0x80], [CHR 0xE2, CHR 0x80, CHR 0x81],
     [CHR 0xE2, CHR 0x80, CHR 0x82], [CHR 0xE2, CHR 0x80, CHR 0x83],
     [CHR 0xE2, CHR 0x80, CHR 0x84], [CHR 0xE2, CHR 0x80, CHR 0x85],
     [CHR 0xE2, CHR 0x80, CHR 0x86], [CHR 0xE2, CHR 0x80, CHR 0x87],
     [CHR 0xE2, CHR 0x80, CHR 0x88], [CHR 0xE2, CHR 0x80, CHR 0x89],
     [CHR 0xE2, CHR 0x80, CHR 0x8A], [CHR 0xE2, CHR 0x80, CHR 0xA8],
     [CHR 0xE2, CHR 0x80, CHR 0xA9], [CHR 0xE2, CHR 0x80, CHR 0xAF],
     [CHR 0xE2, CHR 0x81, CHR 0x9F], [CHR 0xE3, CHR 0x80, CHR 0x80]]"

fun starts_with :: "string \<Rightarrow> string \<Rightarrow> bool" where
  "starts_with [] s = True"
| "starts_with (a # w) [] = False"
| "starts_with (a # w) (b # s) = (a = b \<and> starts_with w s)"

lemma starts_with_iff: "starts_with w s \<longleftrightarrow> (\<exists>t. s = w @ t)"
  by (induction w s rule: starts_with.induct) auto

text \<open>Removing given non-empty words from the front as long as one stands there.\<close>

function strip_front :: "string list \<Rightarrow> string \<Rightarrow> string" where
  "strip_front ws s =
     (case find (\<lambda>w. w \<noteq> [] \<and> starts_with w s) ws of
        None \<Rightarrow> s
      | Some w \<Rightarrow> strip_front ws (drop (length w) s))"
  by pat_completeness auto
termination
  by (relation "measure (\<lambda>(ws, s). length s)")
    (auto simp: find_Some_iff starts_with_iff)

declare strip_front.simps [simp del]

definition trim_space :: "string \<Rightarrow> string" where
  "trim_space s =
     rev (strip_front (map rev space_encodings) (rev (strip_front space_encodings s)))"

section \<open>\<open>strings.ToLower\<close>, up to ASCII\<close>

text \<open>
  The program only compares the result of \<open>strings.ToLower\<close> with ASCII literals.  Outside
  ASCII exactly two code points have a lower case inside it, U+0130 (\<open>i\<close>) and U+212A
  (\<open>k\<close>); every other byte outside ASCII belongs to a code point, or to an error, whose
  image is outside ASCII too, and is left as it is here.
\<close>

definition lower_byte :: "char \<Rightarrow> char" where
  "lower_byte ch = (if 65 \<le> byte ch \<and> byte ch \<le> 90 then char_of (byte ch + 32) else ch)"

function go_lower :: "string \<Rightarrow> string" where
  "go_lower s =
     (case s of
        [] \<Rightarrow> []
      | a # t \<Rightarrow>
          if starts_with [CHR 0xC4, CHR 0xB0] s then CHR ''i'' # go_lower (drop 2 s)
          else if starts_with [CHR 0xE2, CHR 0x84, CHR 0xAA] s then CHR ''k'' # go_lower (drop 3 s)
          else lower_byte a # go_lower t)"
  by pat_completeness auto
termination
  by (relation "measure length") auto

declare go_lower.simps [simp del]

section \<open>\<open>strconv.Itoa\<close> and \<open>strconv.Atoi\<close>\<close>

definition digit :: "nat \<Rightarrow> char" where
  "digit d = char_of (48 + d)"

definition is_digit :: "char \<Rightarrow> bool" where
  "is_digit ch \<longleftrightarrow> 48 \<le> byte ch \<and> byte ch \<le> 57"

fun itoa_nat :: "nat \<Rightarrow> string" where
  "itoa_nat n = (if n < 10 then [digit n] else itoa_nat (n div 10) @ [digit (n mod 10)])"

declare itoa_nat.simps [simp del]

definition itoa :: "goint \<Rightarrow> string" where
  "itoa x = (if sint x < 0 then CHR ''-'' # itoa_nat (nat (- sint x)) else itoa_nat (nat (sint x)))"

definition digits_value :: "string \<Rightarrow> nat" where
  "digits_value s = foldl (\<lambda>n ch. 10 * n + (byte ch - 48)) 0 s"

text \<open>An optional sign, then at least one digit; a value outside 64 bits is a range error.\<close>

definition atoi :: "string \<Rightarrow> goint option" where
  "atoi s =
     (let (neg, t) =
        (case s of
           [] \<Rightarrow> (False, [])
         | ch # t \<Rightarrow> if ch = CHR ''-'' then (True, t) else if ch = CHR ''+'' then (False, t)
                    else (False, s))
      in if t = [] \<or> \<not> list_all is_digit t then None
         else let v = (if neg then - int (digits_value t) else int (digits_value t))
              in if - (2 ^ 63) \<le> v \<and> v < 2 ^ 63 then Some (word_of_int v) else None)"

lemma byte_digit [simp]: "d < 10 \<Longrightarrow> byte (digit d) = 48 + d"
  by (simp add: byte_def digit_def)

lemma is_digit_digit [simp]: "d < 10 \<Longrightarrow> is_digit (digit d)"
  by (simp add: is_digit_def)

lemma itoa_nat_digits: "list_all is_digit (itoa_nat n) \<and> itoa_nat n \<noteq> []"
proof (induction n rule: itoa_nat.induct)
  case (1 n)
  then show ?case by (subst (1 2) itoa_nat.simps) simp
qed

lemma digits_value_snoc: "digits_value (s @ [ch]) = 10 * digits_value s + (byte ch - 48)"
  by (simp add: digits_value_def)

lemma digits_value_itoa_nat [simp]: "digits_value (itoa_nat n) = n"
proof (induction n rule: itoa_nat.induct)
  case (1 n)
  show ?case
  proof (cases "n < 10")
    case True
    then show ?thesis by (subst itoa_nat.simps) (simp add: digits_value_def)
  next
    case False
    then show ?thesis using 1 by (subst itoa_nat.simps) (simp add: digits_value_snoc)
  qed
qed

lemma itoa_nat_no_sign:
  obtains ch t where "itoa_nat n = ch # t" and "ch \<noteq> CHR ''-''" and "ch \<noteq> CHR ''+''"
proof -
  obtain ch t where eq: "itoa_nat n = ch # t"
    using itoa_nat_digits [of n] by (cases "itoa_nat n") auto
  moreover have "is_digit ch" using itoa_nat_digits [of n] eq by simp
  then have "ch \<noteq> CHR ''-''" "ch \<noteq> CHR ''+''" by (auto simp: is_digit_def byte_def)
  ultimately show thesis by (rule that)
qed

text \<open>Printing an integer and reading it back gives the integer.\<close>

lemma atoi_itoa [simp]: "atoi (itoa x) = Some x"
proof (cases "sint x < 0")
  case True
  then show ?thesis
    using itoa_nat_digits [of "nat (- sint x)"] sint_range64 [of x]
    by (simp add: itoa_def atoi_def)
next
  case False
  obtain ch t where eq: "itoa_nat (nat (sint x)) = ch # t"
    and "ch \<noteq> CHR ''-''" and "ch \<noteq> CHR ''+''"
    by (rule itoa_nat_no_sign)
  moreover have "digits_value (ch # t) = nat (sint x)"
    using digits_value_itoa_nat [of "nat (sint x)"] by (simp add: eq)
  ultimately show ?thesis
    using False itoa_nat_digits [of "nat (sint x)"] sint_range64 [of x]
    by (simp add: itoa_def atoi_def)
qed

end
