(* ===== verification/Kafka.thy ===== *)
theory Kafka
  imports Go_Strings
begin

text \<open>
  The Kafka consumer: \<open>internal/kafka/consumer_config.go\<close>, \<open>consumer_helpers.go\<close> and
  \<open>consumer.go\<close>.

  Everything outside the consumer (the reader of the kafka-go package, the message saver,
  the context, timers and the random source) is one unknown world of type \<open>'w\<close>, and the
  calls the consumer makes on it are the fields of a record \<open>'w consumer_env\<close>.  The run of
  the consumer is therefore defined for every behaviour of those parts.  The state of the
  loop keeps, beside the world and the loop's variable \<open>retry\<close>, the three Prometheus
  counters of the consumer's topic and the list of the calls made so far.
\<close>

section \<open>Configuration\<close>

record consumer_config =
  cfg_Brokers :: "string list"
  cfg_Topic :: string
  cfg_GroupID :: string
  cfg_StartOffset :: string
  cfg_ProcessTimeout :: duration
  cfg_RetryInitial :: duration
  cfg_RetryMax :: duration

datatype start_offset = FirstOffset | LastOffset

record reader_config =
  rc_Brokers :: "string list"
  rc_GroupID :: string
  rc_Topic :: string
  rc_CommitInterval :: duration
  rc_StartOffset :: start_offset

definition readerConfig :: "consumer_config \<Rightarrow> reader_config" where
  "readerConfig c =
     \<lparr>rc_Brokers = cfg_Brokers c, rc_GroupID = cfg_GroupID c, rc_Topic = cfg_Topic c,
      rc_CommitInterval = 0,
      rc_StartOffset =
        (if go_lower (trim_space (cfg_StartOffset c)) = ''first'' then FirstOffset
         else LastOffset)\<rparr>"

definition millisecond :: duration where "millisecond = 1000000"
definition second :: duration where "second = 1000000000"

record consumer =
  processTimeout :: duration
  retryInitial :: duration
  retryMax :: duration

definition NewConsumer :: "consumer_config \<Rightarrow> consumer" where
  "NewConsumer cfg =
     (let pt = cfg_ProcessTimeout cfg; pt = (if sint pt \<le> 0 then 5 * second else pt);
          rInit = cfg_RetryInitial cfg; rInit = (if sint rInit \<le> 0 then 1 * second else rInit);
          rMax = cfg_RetryMax cfg; rMax = (if sint rMax \<le> 0 then 30 * second else rMax)
      in \<lparr>processTimeout = pt, retryInitial = rInit, retryMax = rMax\<rparr>)"

section \<open>Backoff\<close>

definition nextBackoff :: "consumer \<Rightarrow> duration \<Rightarrow> duration" where
  "nextBackoff c current =
     (let current = current * 2
      in if sint (retryMax c) < sint current then retryMax c else current)"

text \<open>
  \<open>rnd\<close> stands for the call of \<open>jitterRand.Int63n\<close>: it is given the bound and answers
  with a number from 0 up to it, exclusive.  A positive duration is halved as Go does.
\<close>

definition withJitterEqual :: "(duration \<Rightarrow> duration) \<Rightarrow> duration \<Rightarrow> duration" where
  "withJitterEqual rnd d =
     (if sint d \<le> 0 then 0
      else let half = word_of_int (sint d div 2);
               jitter = rnd ((d - half) + 1)
           in half + jitter)"

definition minDuration :: "duration \<Rightarrow> duration \<Rightarrow> duration" where
  "minDuration a b = (if sint a < sint b then a else b)"

section \<open>The world of the consumer\<close>

record message =
  msg_Offset :: "64 word"
  msg_Value :: string

record 'w consumer_env =
  FetchMessage :: "'w \<Rightarrow> (message + goerror) \<times> 'w"
  CommitMessages :: "message \<Rightarrow> 'w \<Rightarrow> goerror option \<times> 'w"
  saveFromMessage :: "duration \<Rightarrow> string \<Rightarrow> 'w \<Rightarrow> goerror option \<times> 'w"
  ctx_Err :: "'w \<Rightarrow> goerror option"
  after_or_done :: "duration \<Rightarrow> 'w \<Rightarrow> bool \<times> 'w"
  Int63n :: "duration \<Rightarrow> 'w \<Rightarrow> duration"

datatype call =
    Fetched message
  | FetchFailed goerror
  | Saved string "goerror option"
  | Committed message "goerror option"
  | Slept duration bool

record 'w run_state =
  world :: 'w
  retry :: duration
  consumed :: nat
  processed :: nat
  failed :: nat
  calls :: "call list"

definition init_run :: "consumer \<Rightarrow> 'w \<Rightarrow> 'w run_state" where
  "init_run c w = \<lparr>world = w, retry = retryInitial c, consumed = 0, processed = 0, failed = 0,
     calls = []\<rparr>"

section \<open>Handlers\<close>

text \<open>What \<open>handleMessage\<close> makes of the saver's answer: processed, or failed and to be
  committed or not.\<close>

definition should_commit :: "goerror option \<Rightarrow> bool" where
  "should_commit err =
     (case err of
        None \<Rightarrow> True
      | Some e \<Rightarrow> if errors_is e (Sentinel Validate_ErrInvalidOrder) then True else False)"

definition handleMessage ::
    "consumer \<Rightarrow> 'w consumer_env \<Rightarrow> message \<Rightarrow> 'w run_state \<Rightarrow> bool \<times> 'w run_state" where
  "handleMessage c env msg s =
     (let (err, w) = saveFromMessage env (processTimeout c) (msg_Value msg) (world s);
          s = s\<lparr>world := w, calls := calls s @ [Saved (msg_Value msg) err]\<rparr>
      in case err of
           None \<Rightarrow> (should_commit err, s\<lparr>processed := Suc (processed s)\<rparr>)
         | Some _ \<Rightarrow> (should_commit err, s\<lparr>failed := Suc (failed s)\<rparr>))"

definition commitSafely :: "'w consumer_env \<Rightarrow> message \<Rightarrow> 'w run_state \<Rightarrow> 'w run_state" where
  "commitSafely env msg s =
     (let (err, w) = CommitMessages env msg (world s)
      in s\<lparr>world := w, calls := calls s @ [Committed msg err]\<rparr>)"

definition sleepWithBackoff ::
    "'w consumer_env \<Rightarrow> duration \<Rightarrow> 'w run_state \<Rightarrow> bool \<times> 'w run_state" where
  "sleepWithBackoff env d s =
     (let (elapsed, w) = after_or_done env d (world s)
      in (elapsed, s\<lparr>world := w, calls := calls s @ [Slept d elapsed]\<rparr>))"

section \<open>The loop\<close>

text \<open>
  One iteration of the \<open>for\<close> loop of \<open>Run\<close>: \<open>Inl\<close> the state the loop goes on with, or
  \<open>Inr\<close> the value \<open>Run\<close> returns, with the last state.
\<close>

definition run_iter ::
    "consumer \<Rightarrow> 'w consumer_env \<Rightarrow> 'w run_state \<Rightarrow> 'w run_state + goerror option \<times> 'w run_state"
where
  "run_iter c env s =
     (case FetchMessage env (world s) of
        (Inr fetchErr, w) \<Rightarrow>
          (let s = s\<lparr>world := w, calls := calls s @ [FetchFailed fetchErr]\<rparr>
           in if ctx_Err env (world s) \<noteq> None then Inr (ctx_Err env (world s), s)
              else let sleep = withJitterEqual (\<lambda>n. Int63n env n (world s)) (retry s);
                       (elapsed, s) = sleepWithBackoff env sleep s
                   in if \<not> elapsed then Inr (ctx_Err env (world s), s)
                      else Inl (s\<lparr>retry := nextBackoff c (retry s)\<rparr>))
      | (Inl msg, w) \<Rightarrow>
          (let s = s\<lparr>world := w, calls := calls s @ [Fetched msg], retry := retryInitial c,
                     consumed := Suc (consumed s)\<rparr>;
               (shouldCommit, s) = handleMessage c env msg s
           in if shouldCommit then Inl (commitSafely env msg s)
              else let sleep = withJitterEqual (\<lambda>n. Int63n env n (world s))
                                 (minDuration (retryInitial c) (500 * millisecond));
                       (_, s) = sleepWithBackoff env sleep s
                   in Inl s))"

text \<open>At most \<open>n\<close> iterations of the loop.\<close>

fun run_loop ::
    "consumer \<Rightarrow> 'w consumer_env \<Rightarrow> nat \<Rightarrow> 'w run_state \<Rightarrow> 'w run_state + goerror option \<times> 'w run_state"
where
  "run_loop c env 0 s = Inl s"
| "run_loop c env (Suc n) s =
     (case run_iter c env s of
        Inr r \<Rightarrow> Inr r
      | Inl s \<Rightarrow> run_loop c env n s)"

text \<open>\<open>Run\<close> itself, which need not return: \<open>None\<close> is a run that goes on for ever.\<close>

partial_function (option) run_from ::
    "consumer \<Rightarrow> 'w consumer_env \<Rightarrow> 'w run_state \<Rightarrow> (goerror option \<times> 'w run_state) option"
where
  "run_from c env s =
     (case run_iter c env s of
        Inr r \<Rightarrow> Some r
      | Inl s' \<Rightarrow> run_from c env s')"

definition Run :: "consumer \<Rightarrow> 'w consumer_env \<Rightarrow> 'w \<Rightarrow> (goerror option \<times> 'w run_state) option"
where
  "Run c env w = run_from c env (init_run c w)"

section \<open>Closing\<close>

text \<open>\<open>Close\<close> runs the reader's \<open>Close\<close> under a \<open>sync.Once\<close>.\<close>

record closer =
  once_done :: bool
  reader_closes :: nat

definition Close :: "goerror option \<Rightarrow> closer \<Rightarrow> goerror option \<times> closer" where
  "Close reader_err s =
     (if once_done s then (None, s)
      else (reader_err, s\<lparr>once_done := True, reader_closes := Suc (reader_closes s)\<rparr>))"

end
