(* ===== verification/Kafka_Props.thy ===== *)
theory Kafka_Props
  imports Kafka
begin

text \<open>
  Properties of the Kafka consumer: the backoff and its jitter, the protocol of calls every
  run follows (fetch, save, commit), its metrics, when \<open>Run\<close> returns, and what happens to
  a message whose processing failed for a moment.
\<close>

section \<open>Backoff\<close>

text \<open>Durations small enough to be doubled within 64 bits (about 146 years).\<close>

definition small_backoff :: "consumer \<Rightarrow> bool" where
  "small_backoff c \<longleftrightarrow>
     0 < sint (retryInitial c) \<and> sint (retryInitial c) < 2 ^ 62 \<and>
     0 < sint (retryMax c) \<and> sint (retryMax c) < 2 ^ 62"

lemma sint_nextBackoff:
  assumes "0 < sint d" and "sint d < 2 ^ 62"
  shows "sint (nextBackoff c d) = min (2 * sint d) (sint (retryMax c))"
  using assms sint_double [of d] by (simp add: nextBackoff_def Let_def)


definition sample_consumer :: consumer where
  "sample_consumer = \<lparr>processTimeout = 5 * second, retryInitial = second, retryMax = 30 * second\<rparr>"


text \<open>The documented contract of \<open>Int63n\<close>.\<close>

definition int63n_ok :: "(duration \<Rightarrow> duration) \<Rightarrow> bool" where
  "int63n_ok rnd \<longleftrightarrow> (\<forall>n. 0 < sint n \<longrightarrow> 0 \<le> sint (rnd n) \<and> sint (rnd n) < sint n)"

lemma half_bounds:
  assumes "0 < sint (d :: duration)"
  shows "sint (word_of_int (sint d div 2) :: duration) = sint d div 2"
    and "sint ((d - word_of_int (sint d div 2)) + 1) = sint d - sint d div 2 + 1"
proof -
  let ?h = "word_of_int (sint d div 2) :: duration"
  show h: "sint ?h = sint d div 2"
    using assms sint_range64 [of d] by (intro sint_of_int_small) linarith+
  have "sint (d - ?h) = sint d - sint d div 2"
    using assms sint_range64 [of d] h by (subst sint_diff_small) linarith+
  then show "sint ((d - ?h) + 1) = sint d - sint d div 2 + 1"
    using assms sint_range64 [of d] by (subst sint_add_small) simp_all
qed

lemma jitter_range:
  assumes "int63n_ok rnd" and "0 < sint d"
  shows "sint d div 2 \<le> sint (withJitterEqual rnd d) \<and> sint (withJitterEqual rnd d) \<le> sint d \<and>
    0 < sint ((d - word_of_int (sint d div 2)) + 1)"
proof -
  let ?h = "word_of_int (sint d div 2) :: duration"
  let ?n = "(d - ?h) + 1"
  note hb = half_bounds [OF assms(2)]
  have n: "0 < sint ?n" using hb(2) assms(2) by linarith
  then have r: "0 \<le> sint (rnd ?n)" "sint (rnd ?n) < sint ?n"
    using assms(1) by (auto simp: int63n_ok_def)
  have "sint (?h + rnd ?n) = sint ?h + sint (rnd ?n)"
    using r hb assms(2) sint_range64 [of d] by (intro sint_add_small) linarith+
  then have "sint (withJitterEqual rnd d) = sint d div 2 + sint (rnd ?n)"
    using assms(2) hb(1) by (simp add: withJitterEqual_def Let_def)
  with r hb n show ?thesis by linarith
qed

text \<open>the jittered wait lies between half of the given duration and the whole of it; the
  random source is only asked for a number below a positive bound, so \<open>Int63n\<close> does not
  panic.\<close>
theorem jitter_between_half_and_full:
  assumes "int63n_ok rnd" and "0 < sint d"
  shows "sint d div 2 \<le> sint (withJitterEqual rnd d) \<and> sint (withJitterEqual rnd d) \<le> sint d \<and>
    0 < sint ((d - word_of_int (sint d div 2)) + 1)"
  using assms by (rule jitter_range)

lemma jitter_between_half_and_full_witness:
  "500 \<le> sint (withJitterEqual (\<lambda>n. n - 1) 1000) \<and> sint (withJitterEqual (\<lambda>n. n - 1) 1000) \<le> 1000"
proof -
  have "sint (n - 1) = sint n - 1" if "0 < sint n" for n :: duration
    using that sint_range64 [of n] by (subst sint_diff_small) simp_all
  then have "int63n_ok (\<lambda>n. n - 1)"
    by (simp add: int63n_ok_def)
  from jitter_between_half_and_full [OF this, of 1000] show ?thesis by simp
qed


section \<open>A scripted world\<close>

text \<open>
  A concrete world for evaluations: the reader plays a list of results and then reports the
  cancelled context, the saver answers from the value, commits succeed, timers elapse.
\<close>

definition script_env :: "(message + goerror) list consumer_env" where
  "script_env =
     \<lparr>FetchMessage = (\<lambda>w. case w of [] \<Rightarrow> (Inr (Sentinel Context_Canceled), []) | x # xs \<Rightarrow> (x, xs)),
      CommitMessages = (\<lambda>m w. (None, w)),
      saveFromMessage = (\<lambda>t v w.
        (if v = ''invalid'' then Some (Wrapf ''validation failed'' (Sentinel Validate_ErrInvalidOrder))
         else if v = ''db down'' then Some (Wrapf ''failed to save order'' (Errorf ''db down'')) else None, w)),
      ctx_Err = (\<lambda>w. if w = [] then Some (Sentinel Context_Canceled) else None),
      after_or_done = (\<lambda>d w. (True, w)),
      Int63n = (\<lambda>n w. 0)\<rparr>"

abbreviation sample_message :: "64 word \<Rightarrow> string \<Rightarrow> message" where
  "sample_message i v \<equiv> \<lparr>msg_Offset = i, msg_Value = v\<rparr>"

section \<open>The protocol of calls\<close>

text \<open>What one iteration may call when the loop goes on after it, and when it returns.\<close>

inductive iteration_calls :: "call list \<Rightarrow> bool" where
  committed: "should_commit r \<Longrightarrow>
    iteration_calls [Fetched m, Saved (msg_Value m) r, Committed m e]"
| skipped: "\<not> should_commit r \<Longrightarrow>
    iteration_calls [Fetched m, Saved (msg_Value m) r, Slept d b]"
| retried: "iteration_calls [FetchFailed e, Slept d True]"

inductive exit_calls :: "call list \<Rightarrow> bool" where
  cancelled: "exit_calls [FetchFailed e]"
| interrupted: "exit_calls [FetchFailed e, Slept d False]"

inductive loop_calls :: "call list \<Rightarrow> bool" where
  nil: "loop_calls []"
| snoc: "loop_calls tr \<Longrightarrow> iteration_calls it \<Longrightarrow> loop_calls (tr @ it)"

lemma should_commit_iff:
  "should_commit r \<longleftrightarrow>
    r = None \<or> (\<exists>err. r = Some err \<and> errors_is err (Sentinel Validate_ErrInvalidOrder))"
  by (cases r) (auto simp: should_commit_def)

lemmas handler_defs = run_iter_def handleMessage_def commitSafely_def sleepWithBackoff_def Let_def

lemma run_iter_calls:
  "run_iter c env s = Inl s' \<Longrightarrow> \<exists>it. iteration_calls it \<and> calls s' = calls s @ it"
  by (fastforce simp: handler_defs split: prod.splits sum.splits if_splits option.splits
      intro: iteration_calls.intros)

lemma run_iter_exit_calls:
  "run_iter c env s = Inr (err, s') \<Longrightarrow>
    err = ctx_Err env (world s') \<and> (\<exists>ex. exit_calls ex \<and> calls s' = calls s @ ex)"
  by (fastforce simp: handler_defs split: prod.splits sum.splits if_splits option.splits
      intro: exit_calls.intros)

lemma run_loop_calls:
  "loop_calls (calls s) \<Longrightarrow> run_loop c env n s = Inl s' \<Longrightarrow> loop_calls (calls s')"
proof (induction n arbitrary: s)
  case (Suc n)
  from Suc.prems(2) obtain s1 where s1: "run_iter c env s = Inl s1" "run_loop c env n s1 = Inl s'"
    by (auto split: sum.splits)
  have "loop_calls (calls s1)"
    using run_iter_calls [OF s1(1)] Suc.prems(1) by (auto intro: loop_calls.snoc)
  then show ?case using Suc.IH s1(2) by blast
qed simp

lemma run_loop_exit_calls:
  "loop_calls (calls s) \<Longrightarrow> run_loop c env n s = Inr (err, s') \<Longrightarrow>
    err = ctx_Err env (world s') \<and>
    (\<exists>tr ex. loop_calls tr \<and> exit_calls ex \<and> calls s' = tr @ ex)"
proof (induction n arbitrary: s)
  case (Suc n)
  show ?case
  proof (cases "run_iter c env s")
    case (Inl s1)
    then have "loop_calls (calls s1)"
      using run_iter_calls [OF Inl] Suc.prems(1) by (auto intro: loop_calls.snoc)
    with Suc Inl show ?thesis by simp
  next
    case (Inr r)
    then show ?thesis
      using Suc.prems run_iter_exit_calls by fastforce
  qed
qed simp

text \<open>The calls made after at most \<open>n\<close> iterations, whether or not \<open>Run\<close> returned.\<close>

definition calls_after :: "consumer \<Rightarrow> 'w consumer_env \<Rightarrow> 'w \<Rightarrow> nat \<Rightarrow> call list" where
  "calls_after c env w n =
     (case run_loop c env n (init_run c w) of Inl s \<Rightarrow> calls s | Inr (_, s) \<Rightarrow> calls s)"

lemma calls_after_shape:
  obtains tr ex where "loop_calls tr" and "ex = [] \<or> exit_calls ex"
    and "calls_after c env w n = tr @ ex"
proof (cases "run_loop c env n (init_run c w)")
  case (Inl s)
  then have "loop_calls (calls s)"
    using run_loop_calls [of "init_run c w" c env n s] by (simp add: init_run_def loop_calls.nil)
  with Inl show thesis
    by (intro that [of "calls s" "[]"]) (simp_all add: calls_after_def)
next
  case (Inr r)
  obtain err s where r: "r = (err, s)" by (cases r)
  then show thesis
    using Inr run_loop_exit_calls [of "init_run c w" c env n err s] that
    by (auto simp: calls_after_def init_run_def loop_calls.nil)
qed

text \<open>Around a call inside one block of a sequence of blocks.\<close>

lemma loop_calls_commit:
  "loop_calls tr \<Longrightarrow> tr = xs @ Committed m e # ys \<Longrightarrow>
    \<exists>xs' r. xs = xs' @ [Fetched m, Saved (msg_Value m) r] \<and> should_commit r"
proof (induction arbitrary: ys rule: loop_calls.induct)
  case (snoc tr it)
  from snoc.prems [symmetric] show ?case
  proof (cases rule: append_eq_elem_cases)
    case left
    then show ?thesis using snoc.IH by blast
  next
    case right
    from snoc.hyps(2) right(2) show ?thesis
      unfolding right(1)
      by cases (auto simp: append_eq_Cons_conv Cons_eq_append_conv)
  qed
qed simp


lemma committed_after_saved:
  assumes "calls_after c env w n = xs @ Committed m e # ys"
  shows "\<exists>xs' r. xs = xs' @ [Fetched m, Saved (msg_Value m) r] \<and> should_commit r"
proof -
  obtain tr ex where tr: "loop_calls tr" and ex: "ex = [] \<or> exit_calls ex"
    and eq: "calls_after c env w n = tr @ ex"
    by (rule calls_after_shape)
  have "Committed m e \<notin> set ex" using ex by (auto elim: exit_calls.cases)
  with assms eq obtain us where "tr = xs @ Committed m e # us"
    by (metis append_eq_elem_left)
  from loop_calls_commit [OF tr this] show ?thesis .
qed

text \<open>C12: the offset of a message is committed only directly after that message was fetched
  and its value given to the saver, and only when the saver succeeded or reported an invalid
  order; this holds at every point of every run, whatever the reader, the saver, the context
  and the timers do.\<close>
theorem commit_only_after_processing:
  assumes "calls_after c env w n = xs @ Committed m e # ys"
  shows "\<exists>xs' r. xs = xs' @ [Fetched m, Saved (msg_Value m) r] \<and>
    (r = None \<or> (\<exists>err. r = Some err \<and> errors_is err (Sentinel Validate_ErrInvalidOrder)))"
  using committed_after_saved [OF assms] by (simp add: should_commit_iff)

lemma commit_only_after_processing_witness:
  "\<exists>xs' r. [Fetched (sample_message 7 ''ok''), Saved ''ok'' None] =
     xs' @ [Fetched (sample_message 7 ''ok''), Saved ''ok'' r] \<and>
     (r = None \<or> (\<exists>err. r = Some err \<and> errors_is err (Sentinel Validate_ErrInvalidOrder)))"
proof -
  have "calls_after sample_consumer script_env [Inl (sample_message 7 ''ok'')] 1 =
      [Fetched (sample_message 7 ''ok''), Saved ''ok'' None] @ Committed (sample_message 7 ''ok'') None # []"
    by code_simp
  from commit_only_after_processing [OF this] show ?thesis by simp
qed

lemma loop_calls_fetch:
  "loop_calls tr \<Longrightarrow> tr = xs @ Fetched m # ys \<Longrightarrow>
    \<exists>r call zs. ys = Saved (msg_Value m) r # call # zs \<and>
      (if should_commit r then \<exists>e. call = Committed m e else \<exists>d b. call = Slept d b)"
proof (induction arbitrary: ys rule: loop_calls.induct)
  case (snoc tr it)
  from snoc.prems [symmetric] show ?case
  proof (cases rule: append_eq_elem_cases)
    case left
    then show ?thesis using snoc.IH by fastforce
  next
    case right
    from snoc.hyps(2) right(2) show ?thesis
      by cases (auto simp: append_eq_Cons_conv Cons_eq_append_conv)
  qed
qed simp

text \<open>every message the reader delivers is given to the saver exactly once, before
  anything else happens, and its offset is then committed exactly if the saver succeeded or
  reported an invalid order; after any other error there is only a pause.\<close>
theorem fetched_is_saved_and_settled:
  assumes "calls_after c env w n = xs @ Fetched m # ys"
  shows "\<exists>r call zs. ys = Saved (msg_Value m) r # call # zs \<and>
    (if r = None \<or> (\<exists>err. r = Some err \<and> errors_is err (Sentinel Validate_ErrInvalidOrder))
     then \<exists>e. call = Committed m e else \<exists>d b. call = Slept d b)"
proof -
  obtain tr ex where tr: "loop_calls tr" and ex: "ex = [] \<or> exit_calls ex"
    and eq: "calls_after c env w n = tr @ ex"
    by (rule calls_after_shape)
  have "Fetched m \<notin> set ex" using ex by (auto elim: exit_calls.cases)
  with assms eq obtain us where us: "tr = xs @ Fetched m # us" "ys = us @ ex"
    by (metis append_eq_elem_left)
  obtain r call zs where "us = Saved (msg_Value m) r # call # zs"
    and "if should_commit r then \<exists>e. call = Committed m e else \<exists>d b. call = Slept d b"
    using loop_calls_fetch [OF tr us(1)] by blast
  then show ?thesis
    using us(2) unfolding should_commit_iff
    by (intro exI [of _ r] exI [of _ call] exI [of _ "zs @ ex"]) simp
qed

lemma fetched_is_saved_and_settled_witness:
  "\<exists>d b. calls_after sample_consumer script_env
       [Inl (sample_message 7 ''db down''), Inl (sample_message 8 ''ok'')] 1 =
     [Fetched (sample_message 7 ''db down''),
      Saved ''db down'' (Some (Wrapf ''failed to save order'' (Errorf ''db down''))), Slept d b]"
proof -
  let ?ys = "[Saved ''db down'' (Some (Wrapf ''failed to save order'' (Errorf ''db down''))),
      Slept 250000000 True]"
  have eq: "calls_after sample_consumer script_env
       [Inl (sample_message 7 ''db down''), Inl (sample_message 8 ''ok'')] 1 =
     [] @ Fetched (sample_message 7 ''db down'') # ?ys"
    by code_simp
  from fetched_is_saved_and_settled [OF this] eq show ?thesis by auto
qed

section \<open>Metrics\<close>

lemma run_iter_metrics:
  "run_iter c env s = Inl s' \<Longrightarrow> consumed s = processed s + failed s \<Longrightarrow>
    consumed s' = processed s' + failed s'"
  by (auto simp: handler_defs split: prod.splits sum.splits if_splits option.splits)

lemma run_iter_exit_metrics:
  "run_iter c env s = Inr (err, s') \<Longrightarrow>
    consumed s' = consumed s \<and> processed s' = processed s \<and> failed s' = failed s"
  by (auto simp: handler_defs split: prod.splits sum.splits if_splits option.splits)

lemma run_loop_metrics:
  "consumed s = processed s + failed s \<Longrightarrow>
    (case run_loop c env n s of Inl s' \<Rightarrow> consumed s' = processed s' + failed s'
     | Inr (_, s') \<Rightarrow> consumed s' = processed s' + failed s')"
proof (induction n arbitrary: s)
  case (Suc n)
  show ?case
  proof (cases "run_iter c env s")
    case (Inl s1)
    then show ?thesis using Suc.IH [OF run_iter_metrics [OF Inl Suc.prems]] by simp
  next
    case (Inr r)
    then show ?thesis
      using Suc.prems run_iter_exit_metrics [of c env s "fst r" "snd r"]
      by (cases r) simp
  qed
qed simp

text \<open>at every iteration boundary the messages consumed are the messages processed plus
  the messages failed.\<close>
theorem consumer_metrics_balance:
  "case run_loop c env n (init_run c w) of
     Inl s \<Rightarrow> consumed s = processed s + failed s
   | Inr (_, s) \<Rightarrow> consumed s = processed s + failed s"
  by (rule run_loop_metrics) (simp add: init_run_def)

section \<open>When \<open>Run\<close> returns\<close>

lemma run_from_loop:
  "run_loop c env n s = Inl s' \<Longrightarrow> run_from c env s = run_from c env s'"
proof (induction n arbitrary: s)
  case (Suc n)
  from Suc.prems obtain s1 where "run_iter c env s = Inl s1" "run_loop c env n s1 = Inl s'"
    by (auto split: sum.splits)
  then show ?case using Suc.IH by (subst run_from.simps) simp
qed simp

lemma run_from_Some_loop:
  assumes "run_from c env s = Some r"
  shows "\<exists>n. run_loop c env n s = Inr r"
proof (rule run_from.raw_induct [where P = "\<lambda>c env s r. \<exists>n. run_loop c env n s = Inr r", OF _ assms])
  fix run c env s r
  assume IH: "\<And>c env s r. run c env s = Some r \<Longrightarrow> \<exists>n. run_loop c env n s = Inr r"
    and eq: "(case run_iter c env s of Inl s' \<Rightarrow> run c env s' | Inr r \<Rightarrow> Some r) = Some r"
  show "\<exists>n. run_loop c env n s = Inr r"
  proof (cases "run_iter c env s")
    case (Inl s1)
    with eq have "run c env s1 = Some r" by simp
    then obtain n where "run_loop c env n s1 = Inr r" using IH by blast
    with Inl have "run_loop c env (Suc n) s = Inr r" by simp
    then show ?thesis by blast
  next
    case (Inr r')
    with eq have "run_loop c env (Suc 0) s = Inr r" by simp
    then show ?thesis by blast
  qed
qed

text \<open>\<open>Run\<close> returns nothing but the context's own error, and only after a failed fetch:
  no error of the saver or of a commit ends it.\<close>
theorem Run_returns_context_error:
  assumes "Run c env w = Some (err, s)"
  shows "err = ctx_Err env (world s) \<and>
    (\<exists>tr e. calls s = tr @ [FetchFailed e] \<or> (\<exists>d. calls s = tr @ [FetchFailed e, Slept d False]))"
proof -
  from assms obtain n where "run_loop c env n (init_run c w) = Inr (err, s)"
    unfolding Run_def by (blast dest: run_from_Some_loop)
  then have "err = ctx_Err env (world s)" and "\<exists>tr ex. loop_calls tr \<and> exit_calls ex \<and> calls s = tr @ ex"
    using run_loop_exit_calls [of "init_run c w" c env n err s] by (auto simp: init_run_def loop_calls.nil)
  then show ?thesis by (blast elim: exit_calls.cases)
qed


lemma Run_returns_context_error_witness:
  "\<exists>s. Run sample_consumer script_env [] = Some (Some (Sentinel Context_Canceled), s) \<and>
    Some (Sentinel Context_Canceled) = ctx_Err script_env (world s)"
proof -
  let ?s = "(init_run sample_consumer [])\<lparr>calls := [FetchFailed (Sentinel Context_Canceled)]\<rparr>"
  have run: "Run sample_consumer script_env [] = Some (Some (Sentinel Context_Canceled), ?s)"
    unfolding Run_def by (subst run_from.simps) (simp add: run_iter_def script_env_def init_run_def Let_def)
  from conjI [OF run Run_returns_context_error [OF run, THEN conjunct1]] show ?thesis
    by (rule exI)
qed

text \<open>once a fetch fails while the context is cancelled, \<open>Run\<close> returns the context's
  error at once, without another call.\<close>
theorem Run_stops_when_cancelled:
  assumes "run_loop c env n (init_run c w) = Inl s"
    and "FetchMessage env (world s) = (Inr e, w')" and "ctx_Err env w' = Some err"
  shows "Run c env w = Some (Some err, s\<lparr>world := w', calls := calls s @ [FetchFailed e]\<rparr>)"
proof -
  have "run_iter c env s = Inr (Some err, s\<lparr>world := w', calls := calls s @ [FetchFailed e]\<rparr>)"
    using assms(2,3) by (simp add: run_iter_def Let_def)
  then have "run_from c env s = Some (Some err, s\<lparr>world := w', calls := calls s @ [FetchFailed e]\<rparr>)"
    by (subst run_from.simps) simp
  then show ?thesis
    using run_from_loop [OF assms(1)] by (simp add: Run_def)
qed

lemma Run_stops_when_cancelled_witness:
  "\<exists>s. Run sample_consumer script_env [Inl (sample_message 7 ''ok'')] =
     Some (Some (Sentinel Context_Canceled), s)"
proof -
  obtain s where loop: "run_loop sample_consumer script_env 1
      (init_run sample_consumer [Inl (sample_message 7 ''ok'')]) = Inl s" and w: "world s = []"
    by (simp add: handler_defs script_env_def init_run_def should_commit_def sample_consumer_def)
  have "FetchMessage script_env (world s) = (Inr (Sentinel Context_Canceled), [])"
    and "ctx_Err script_env [] = Some (Sentinel Context_Canceled)"
    by (simp_all add: script_env_def w)
  from Run_stops_when_cancelled [OF loop this] show ?thesis by (rule exI)
qed

text \<open>while the context is not cancelled and timers elapse, no error of the reader, the
  saver or a commit ends the loop: it makes any number of iterations and never returns.\<close>
theorem Run_survives_errors:
  assumes "\<forall>w. ctx_Err env w = None" and "\<forall>d w. fst (after_or_done env d w)"
  shows "Run c env w = None \<and> (\<forall>n. \<exists>s. run_loop c env n (init_run c w) = Inl s)"
proof -
  have iter: "\<exists>s'. run_iter c env s = Inl s'" for s
  proof -
    have "\<not> (\<exists>d w w'. after_or_done env d w = (False, w'))"
      using assms(2) by (metis fst_conv)
    then show ?thesis
      using assms(1) by (auto simp: handler_defs split: prod.splits sum.splits option.splits)
  qed
  have loop: "\<exists>s'. run_loop c env n s = Inl s'" for n s
  proof (induction n arbitrary: s)
    case (Suc n)
    from iter obtain s1 where "run_iter c env s = Inl s1" by blast
    with Suc show ?case by simp
  qed simp
  have "Run c env w = None"
  proof (rule ccontr)
    assume "Run c env w \<noteq> None"
    then obtain r where "run_from c env (init_run c w) = Some r"
      by (auto simp: Run_def)
    then obtain n where "run_loop c env n (init_run c w) = Inr r"
      by (blast dest: run_from_Some_loop)
    with loop [of n "init_run c w"] show False by simp
  qed
  with loop show ?thesis by blast
qed

lemma Run_survives_errors_witness:
  "Run sample_consumer (script_env\<lparr>ctx_Err := \<lambda>w. None\<rparr>) [Inr (Errorf ''broker error'')] = None"
  using Run_survives_errors [of "script_env\<lparr>ctx_Err := \<lambda>w. None\<rparr>" sample_consumer
      "[Inr (Errorf ''broker error'')]"]
  by (simp add: script_env_def)

section \<open>A message whose processing failed for a moment\<close>

text \<open>after an error that is not an invalid order the loop pauses and fetches again; it
  does not keep the message.  If the reader then delivers another message that is processed,
  that later offset is committed, while the failed message has been given to the saver once
  and never again.\<close>
theorem failed_message_is_passed_over:
  assumes "FetchMessage env w = (Inl m, w1)"
    and "saveFromMessage env (processTimeout c) (msg_Value m) w1 = (Some err, w2)"
    and "\<not> errors_is err (Sentinel Validate_ErrInvalidOrder)"
    and "\<forall>d. after_or_done env d w2 = (b, w3)"
    and "FetchMessage env w3 = (Inl m', w4)"
    and "saveFromMessage env (processTimeout c) (msg_Value m') w4 = (None, w5)"
    and "CommitMessages env m' w5 = (None, w6)"
  shows "\<exists>d. calls_after c env w 2 =
    [Fetched m, Saved (msg_Value m) (Some err), Slept d b,
     Fetched m', Saved (msg_Value m') None, Committed m' None]"
  using assms
  by (simp add: calls_after_def numeral_2_eq_2 handler_defs init_run_def should_commit_def)

lemma failed_message_is_passed_over_witness:
  "\<exists>d. calls_after sample_consumer script_env
      [Inl (sample_message 7 ''db down''), Inl (sample_message 8 ''ok'')] 2 =
    [Fetched (sample_message 7 ''db down''),
     Saved ''db down'' (Some (Wrapf ''failed to save order'' (Errorf ''db down''))), Slept d True,
     Fetched (sample_message 8 ''ok''), Saved ''ok'' None, Committed (sample_message 8 ''ok'') None]"
  using failed_message_is_passed_over [of script_env
      "[Inl (sample_message 7 ''db down''), Inl (sample_message 8 ''ok'')]"
      "sample_message 7 ''db down''" "[Inl (sample_message 8 ''ok'')]" sample_consumer
      "Wrapf ''failed to save order'' (Errorf ''db down'')" "[Inl (sample_message 8 ''ok'')]" True
      "[Inl (sample_message 8 ''ok'')]" "sample_message 8 ''ok''" "[]" "[]" "[]"]
  by (simp add: script_env_def)

section \<open>Bounds on every wait\<close>

definition waits_bounded :: "consumer \<Rightarrow> call list \<Rightarrow> bool" where
  "waits_bounded c tr \<longleftrightarrow>
     (\<forall>d b. Slept d b \<in> set tr \<longrightarrow>
        0 \<le> sint d \<and> sint d \<le> max (sint (retryInitial c)) (sint (retryMax c)))"

lemma waits_bounded_append [simp]:
  "waits_bounded c []"
  "waits_bounded c (xs @ ys) \<longleftrightarrow> waits_bounded c xs \<and> waits_bounded c ys"
  "waits_bounded c (x # y # ys) \<longleftrightarrow> waits_bounded c [x] \<and> waits_bounded c (y # ys)"
  by (auto simp: waits_bounded_def)

lemma waits_bounded_call [simp]:
  "waits_bounded c [Fetched m]" "waits_bounded c [FetchFailed e]" "waits_bounded c [Saved v r]"
  "waits_bounded c [Committed m r]"
  "waits_bounded c [Slept d b] \<longleftrightarrow>
    0 \<le> sint d \<and> sint d \<le> max (sint (retryInitial c)) (sint (retryMax c))"
  by (auto simp: waits_bounded_def)

definition retry_bounded :: "consumer \<Rightarrow> 'w run_state \<Rightarrow> bool" where
  "retry_bounded c s \<longleftrightarrow>
     0 < sint (retry s) \<and> sint (retry s) \<le> max (sint (retryInitial c)) (sint (retryMax c))"

lemma jitter_bounds:
  assumes "int63n_ok rnd" and "0 < sint d" and "sint d \<le> b"
  shows "0 \<le> sint (withJitterEqual rnd d)" and "sint (withJitterEqual rnd d) \<le> b"
  using jitter_range [OF assms(1,2)] assms(2,3) by linarith+

lemma nextBackoff_bounded:
  assumes "small_backoff c" and "retry_bounded c s"
  shows "retry_bounded c (s\<lparr>retry := nextBackoff c (retry s)\<rparr>)"
proof -
  have r: "0 < sint (retry s)" "sint (retry s) < 2 ^ 62"
    using assms by (auto simp: small_backoff_def retry_bounded_def)
  show ?thesis
    using sint_nextBackoff [OF r, of c] r assms(1) by (auto simp: retry_bounded_def small_backoff_def)
qed

lemma run_iter_waits:
  assumes sm: "small_backoff c" and rnd: "\<forall>w. int63n_ok (\<lambda>n. Int63n env n w)"
    and inv: "retry_bounded c s" "waits_bounded c (calls s)"
  shows "(case run_iter c env s of
      Inl s' \<Rightarrow> retry_bounded c s' \<and> waits_bounded c (calls s')
    | Inr (_, s') \<Rightarrow> waits_bounded c (calls s'))"
proof -
  let ?b = "max (sint (retryInitial c)) (sint (retryMax c))"
  note jit = jitter_bounds [OF rnd [rule_format]]
  have md: "0 < sint (minDuration (retryInitial c) (500 * millisecond))"
    "sint (minDuration (retryInitial c) (500 * millisecond)) \<le> ?b"
    using sm by (auto simp: minDuration_def small_backoff_def millisecond_def)
  have rt: "0 < sint (retry s)" "sint (retry s) \<le> ?b"
    using inv by (auto simp: retry_bounded_def)
  have init: "0 < sint (retryInitial c)" using sm by (simp add: small_backoff_def)
  show ?thesis
  proof (cases "FetchMessage env (world s)")
    case (Pair r w)
    show ?thesis
    proof (cases r)
      case (Inl m)
      then show ?thesis
        using Pair inv init jit [OF md]
        by (auto simp: handler_defs retry_bounded_def split: prod.splits option.splits)
    next
      case (Inr e)
      then show ?thesis
        using Pair inv jit [OF rt] nextBackoff_bounded [OF sm inv(1)]
        by (auto simp: handler_defs retry_bounded_def split: prod.splits)
    qed
  qed
qed

lemma run_loop_waits:
  assumes sm: "small_backoff c" and rnd: "\<forall>w. int63n_ok (\<lambda>n. Int63n env n w)"
  shows "retry_bounded c s \<Longrightarrow> waits_bounded c (calls s) \<Longrightarrow>
    (case run_loop c env n s of Inl s' \<Rightarrow> waits_bounded c (calls s') | Inr (_, s') \<Rightarrow> waits_bounded c (calls s'))"
proof (induction n arbitrary: s)
  case (Suc n)
  show ?case
    using run_iter_waits [OF sm rnd Suc.prems] Suc.IH
    by (cases "run_iter c env s") (auto split: prod.splits)
qed simp

lemma calls_waits:
  assumes "small_backoff c" and "\<forall>w. int63n_ok (\<lambda>n. Int63n env n w)"
    and "Slept d b \<in> set (calls_after c env w n)"
  shows "0 \<le> sint d \<and> sint d \<le> max (sint (retryInitial c)) (sint (retryMax c))"
proof -
  have "retry_bounded c (init_run c w)" "waits_bounded c (calls (init_run c w))"
    using assms(1) by (auto simp: retry_bounded_def waits_bounded_def init_run_def small_backoff_def)
  then have "waits_bounded c (calls_after c env w n)"
    using run_loop_waits [OF assms(1,2), of "init_run c w" n]
    by (auto simp: calls_after_def split: sum.splits)
  with assms(3) show ?thesis by (auto simp: waits_bounded_def)
qed

text \<open>no wait of the consumer is negative or longer than the larger of the initial and
  the maximal retry interval, at any point of any run.\<close>
theorem waits_stay_bounded:
  assumes "small_backoff c" and "\<forall>w. int63n_ok (\<lambda>n. Int63n env n w)"
    and "Slept d b \<in> set (calls_after c env w n)"
  shows "0 \<le> sint d \<and> sint d \<le> max (sint (retryInitial c)) (sint (retryMax c))"
  using assms by (rule calls_waits)

lemma waits_stay_bounded_witness:
  "\<exists>d. Slept d True \<in> set (calls_after sample_consumer script_env
      [Inr (Errorf ''broker error''), Inl (sample_message 8 ''ok'')] 2) \<and>
    0 \<le> sint d \<and> sint d \<le> 30000000000"
proof -
  have "small_backoff sample_consumer"
    by (simp add: small_backoff_def sample_consumer_def second_def)
  moreover have "\<forall>w. int63n_ok (\<lambda>n. Int63n script_env n w)"
    by (simp add: int63n_ok_def script_env_def)
  moreover have slept: "Slept 500000000 True \<in> set (calls_after sample_consumer script_env
      [Inr (Errorf ''broker error''), Inl (sample_message 8 ''ok'')] 2)"
    by code_simp
  ultimately have "0 \<le> sint (500000000 :: duration) \<and>
      sint (500000000 :: duration) \<le> max (sint (retryInitial sample_consumer)) (sint (retryMax sample_consumer))"
    by (rule waits_stay_bounded)
  then show ?thesis using slept by (auto simp: sample_consumer_def second_def)
qed

section \<open>Closing\<close>

text \<open>however often \<open>Close\<close> is called, with whatever answers of the reader, the reader is
  closed exactly once, and every call after the first reports no error.\<close>
theorem Close_once:
  "let run = foldl (\<lambda>(errs, s) r. let (e, s') = Close r s in (errs @ [e], s'))
       ([], \<lparr>once_done = False, reader_closes = 0\<rparr>) (r # rs)
   in fst run = r # replicate (length rs) None \<and> reader_closes (snd run) = 1"
proof -
  have "foldl (\<lambda>(errs, s) r. let (e, s') = Close r s in (errs @ [e], s')) (es, s) rs =
      (es @ replicate (length rs) None, s)" if "once_done s" for es s
    using that
  proof (induction rs arbitrary: es)
    case (Cons r' rs)
    then show ?case by (simp add: Close_def replicate_app_Cons_same)
  qed simp
  then show ?thesis by (simp add: Close_def)
qed

end
