(* ===== verification/Ports.thy ===== *)
theory Ports
  imports Domain
begin

text \<open>
  The interfaces of \<open>internal/ports\<close>: what a client calls, as records of operations over the
  state of the provider, and what it may rely on, as locales.  \<open>'c\<close> is the state behind an
  \<open>OrderCache\<close> and \<open>'r\<close> the state behind an \<open>OrderRepository\<close>.

  The laws are stated over a \<^emph>\<open>view\<close> of the provider's state, the orders it holds by UID.  The
  cache component and the repository component interpret the locales on their models.
\<close>

section \<open>Operations\<close>

record 'c cache_port =
  cp_Get :: "string \<Rightarrow> 'c \<Rightarrow> (order option \<times> bool) \<times> 'c"
  cp_Set :: "order option \<Rightarrow> 'c \<Rightarrow> goerror option \<times> 'c"
  cp_WarmUp :: "order option list \<Rightarrow> 'c \<Rightarrow> goerror option \<times> 'c"

record 'r repo_port =
  rp_Save :: "order option \<Rightarrow> 'r \<Rightarrow> goerror option \<times> 'r"
  rp_GetByUID :: "string \<Rightarrow> 'r \<Rightarrow> (goerror + order option) \<times> 'r"
  rp_ListByCustomer :: "string \<Rightarrow> goint \<Rightarrow> goint \<Rightarrow> 'r \<Rightarrow> (goerror + order slice) \<times> 'r"
  rp_LastN :: "goint \<Rightarrow> 'r \<Rightarrow> (goerror + order slice) \<times> 'r"

record 's read_port =
  rs_GetOrder :: "string \<Rightarrow> 's \<Rightarrow> (goerror + order option) \<times> 's"
  rs_OrdersByCustomer :: "string \<Rightarrow> goint \<Rightarrow> goint \<Rightarrow> 's \<Rightarrow> (goerror + order slice) \<times> 's"

type_synonym validator = "order option \<Rightarrow> goerror option"

section \<open>Contracts\<close>

text \<open>Anything that holds orders under their own, non-empty UID.\<close>

locale order_view =
  fixes inv :: "'s \<Rightarrow> bool" and view :: "'s \<Rightarrow> string \<Rightarrow> order option"
  assumes view_key: "inv s \<Longrightarrow> view s uid = Some ord \<Longrightarrow> OrderUID ord = uid \<and> uid \<noteq> []"
begin

lemma view_empty_key: "inv s \<Longrightarrow> view s [] = None"
  using view_key [of s "[]"] by (cases "view s []") auto

end

text \<open>
  A cache may forget: no operation adds anything to its view but the orders it is given, as
  copies.  A hit answers from the view; an accepted order is in the view afterwards.
\<close>

locale order_cache = order_view inv view
  for inv :: "'c \<Rightarrow> bool" and view :: "'c \<Rightarrow> string \<Rightarrow> order option" +
  fixes cp :: "'c cache_port"
  assumes get_inv: "inv c \<Longrightarrow> inv (snd (cp_Get cp uid c))"
    and get_view: "inv c \<Longrightarrow> view (snd (cp_Get cp uid c)) \<subseteq>\<^sub>m view c"
    and get_hit: "inv c \<Longrightarrow> fst (cp_Get cp uid c) = (p, True) \<Longrightarrow> p \<noteq> None \<and> view c uid = p"
    and get_miss: "inv c \<Longrightarrow> fst (cp_Get cp uid c) = (p, False) \<Longrightarrow> p = None"
    and set_inv: "inv c \<Longrightarrow> inv (snd (cp_Set cp p c))"
    and set_ok: "inv c \<Longrightarrow> OrderUID ord \<noteq> [] \<Longrightarrow> fst (cp_Set cp (Some ord) c) = None"
    and set_stores: "inv c \<Longrightarrow> OrderUID ord \<noteq> [] \<Longrightarrow>
          view (snd (cp_Set cp (Some ord) c)) (OrderUID ord) = Some (clone_of ord)"
    and set_view: "inv c \<Longrightarrow> OrderUID ord \<noteq> [] \<Longrightarrow>
          view (snd (cp_Set cp (Some ord) c)) \<subseteq>\<^sub>m (view c)(OrderUID ord \<mapsto> clone_of ord)"
    and set_bad: "p = None \<or> (\<exists>ord. p = Some ord \<and> OrderUID ord = []) \<Longrightarrow>
          fst (cp_Set cp p c) \<noteq> None \<and> view (snd (cp_Set cp p c)) = view c"
    and warm_inv: "inv c \<Longrightarrow> inv (snd (cp_WarmUp cp ps c))"
    and warm_view: "inv c \<Longrightarrow> view (snd (cp_WarmUp cp ps c)) uid = Some ord \<Longrightarrow>
          view c uid = Some ord \<or> (\<exists>ord'. Some ord' \<in> set ps \<and> OrderUID ord' = uid \<and> ord = clone_of ord')"
begin

lemma get_view_mem: "inv c \<Longrightarrow> view (snd (cp_Get cp uid c)) k = Some ord \<Longrightarrow> view c k = Some ord"
  by (rule map_leD [OF get_view])

lemma set_view_mem:
  assumes "inv c" and "OrderUID ord \<noteq> []" and "view (snd (cp_Set cp (Some ord) c)) k = Some ord'"
  shows "(k = OrderUID ord \<and> ord' = clone_of ord) \<or> (k \<noteq> OrderUID ord \<and> view c k = Some ord')"
proof -
  have "((view c)(OrderUID ord \<mapsto> clone_of ord)) k = Some ord'"
    using set_view [OF assms(1,2)] assms(3) by (rule map_leD)
  then show ?thesis by (cases "k = OrderUID ord") simp_all
qed

end

text \<open>
  A repository keeps orders up to a relation \<open>same\<close>, which tells what storing an order may
  change.  \<open>Save\<close> updates the view at one key or reports an error; after an error the update
  may still have happened, if the answer to the commit was lost.  Reading changes nothing.
\<close>

locale order_repository = order_view inv view
  for inv :: "'r \<Rightarrow> bool" and view :: "'r \<Rightarrow> string \<Rightarrow> order option" +
  fixes rp :: "'r repo_port" and same :: "order \<Rightarrow> order \<Rightarrow> bool"
  assumes same_refl: "same a a"
    and same_sym: "same a b \<Longrightarrow> same b a"
    and same_trans: "same a b \<Longrightarrow> same b d \<Longrightarrow> same a d"
    and same_clone: "same a (clone_of a)"
    and same_uid: "same a b \<Longrightarrow> OrderUID a = OrderUID b"
    and save_inv: "inv r \<Longrightarrow> inv (snd (rp_Save rp p r))"
    and save_ok: "inv r \<Longrightarrow> rp_Save rp (Some ord) r = (None, r') \<Longrightarrow>
          \<exists>ord'. same ord ord' \<and> view r' = (view r)(OrderUID ord \<mapsto> ord')"
    and save_err: "inv r \<Longrightarrow> rp_Save rp (Some ord) r = (Some err, r') \<Longrightarrow>
          view r' = view r \<or> (\<exists>ord'. same ord ord' \<and> view r' = (view r)(OrderUID ord \<mapsto> ord'))"
    and save_bad: "p = None \<or> (\<exists>ord. p = Some ord \<and> OrderUID ord = []) \<Longrightarrow>
          fst (rp_Save rp p r) \<noteq> None \<and> snd (rp_Save rp p r) = r"
    and get_inv: "inv r \<Longrightarrow> inv (snd (rp_GetByUID rp uid r))"
    and get_view: "inv r \<Longrightarrow> view (snd (rp_GetByUID rp uid r)) = view r"
    and get_ok: "inv r \<Longrightarrow> fst (rp_GetByUID rp uid r) = Inr p \<Longrightarrow> rel_option same p (view r uid)"
    and list_inv: "inv r \<Longrightarrow> inv (snd (rp_ListByCustomer rp cust limit offset r))"
    and list_view: "inv r \<Longrightarrow> view (snd (rp_ListByCustomer rp cust limit offset r)) = view r"
    and list_ok: "inv r \<Longrightarrow> fst (rp_ListByCustomer rp cust limit offset r) = Inr ords \<Longrightarrow>
          ord \<in> set (slice_list ords) \<Longrightarrow>
          CustomerID ord = cust \<and> rel_option same (Some ord) (view r (OrderUID ord))"
    and list_limit: "inv r \<Longrightarrow> fst (rp_ListByCustomer rp cust limit offset r) = Inr ords \<Longrightarrow>
          0 < sint limit \<Longrightarrow> int (length (slice_list ords)) \<le> sint limit"
    and last_inv: "inv r \<Longrightarrow> inv (snd (rp_LastN rp n r))"
    and last_view: "inv r \<Longrightarrow> view (snd (rp_LastN rp n r)) = view r"
    and last_ok: "inv r \<Longrightarrow> fst (rp_LastN rp n r) = Inr ords \<Longrightarrow> ord \<in> set (slice_list ords) \<Longrightarrow>
          rel_option same (Some ord) (view r (OrderUID ord))"

text \<open>
  A validator only accepts orders that are there and have a UID, and its errors are of the
  class by which the consumer recognises them.
\<close>

locale order_validator =
  fixes vp :: validator
  assumes rejects_nil: "vp None \<noteq> None"
    and accepts_named: "vp (Some ord) = None \<Longrightarrow> OrderUID ord \<noteq> []"
    and error_class: "vp p = Some err \<Longrightarrow> errors_is err (Sentinel Validate_ErrInvalidOrder)"

text \<open>
  The service that reads orders for the transport answers with the order that was asked for,
  and with orders of the customer that was asked for, no more of them than the limit.
\<close>

locale order_reader =
  fixes inv :: "'s \<Rightarrow> bool" and rs :: "'s read_port"
  assumes get_inv: "inv s \<Longrightarrow> inv (snd (rs_GetOrder rs uid s))"
    and get_uid: "inv s \<Longrightarrow> fst (rs_GetOrder rs uid s) = Inr (Some ord) \<Longrightarrow> OrderUID ord = uid"
    and list_inv: "inv s \<Longrightarrow> inv (snd (rs_OrdersByCustomer rs cust limit offset s))"
    and list_customer: "inv s \<Longrightarrow> fst (rs_OrdersByCustomer rs cust limit offset s) = Inr ords \<Longrightarrow>
          ord \<in> set (slice_list ords) \<Longrightarrow> CustomerID ord = cust"
    and list_limit: "inv s \<Longrightarrow> fst (rs_OrdersByCustomer rs cust limit offset s) = Inr ords \<Longrightarrow>
          0 < sint limit \<Longrightarrow> int (length (slice_list ords)) \<le> sint limit"

end
