(* ===== verification/Http.thy ===== *)
theory Http
  imports Ports Go_Strings
begin

text \<open>
  The HTTP transport: query parameters (\<open>pkg/httpx/params.go\<close>), request identifiers
  (\<open>pkg/httpx/requestid.go\<close>, \<open>pkg/ctxmeta/ctxmeta.go\<close>), request logging
  (\<open>pkg/httpx/request_logger.go\<close>) and the handlers and the router of
  \<open>internal/transport/http/router.go\<close>.

  Matching a path to a route and writing JSON are gin's; the model starts from the matched
  route and ends with the status and the value given to \<open>c.JSON\<close>.
\<close>

section \<open>Parameters\<close>

definition ClampInt :: "goint \<Rightarrow> goint \<Rightarrow> goint \<Rightarrow> goint" where
  "ClampInt v lo hi = (if sint v < sint lo then lo else if sint v > sint hi then hi else v)"

text \<open>The query, as the first value of each key that is present.\<close>

type_synonym query = "string \<rightharpoonup> string"

definition DefaultQuery :: "query \<Rightarrow> string \<Rightarrow> string \<Rightarrow> string" where
  "DefaultQuery q key def = (case q key of None \<Rightarrow> def | Some v \<Rightarrow> v)"

definition ParseLimitOffset :: "query \<Rightarrow> goint \<Rightarrow> goint \<Rightarrow> goint \<times> goint" where
  "ParseLimitOffset q defaultLimit maxLimit =
     (let limit = (case atoi (DefaultQuery q ''limit'' (itoa defaultLimit)) of
                     Some v \<Rightarrow> ClampInt v 1 maxLimit
                   | None \<Rightarrow> defaultLimit);
          offset = (case atoi (DefaultQuery q ''offset'' ''0'') of
                      Some v \<Rightarrow> if sint v \<ge> 0 then v else 0
                    | None \<Rightarrow> 0)
      in (limit, offset))"

section \<open>Request identifiers\<close>

text \<open>A context, as far as the program looks into it: the value of its request-id key.\<close>

record go_context =
  key_request_id :: "string option"

definition WithRequestID :: "go_context option \<Rightarrow> string \<Rightarrow> go_context option" where
  "WithRequestID ctx requestID =
     (case ctx of
        None \<Rightarrow> None
      | Some c \<Rightarrow> if requestID = [] then Some c else Some (c\<lparr>key_request_id := Some requestID\<rparr>))"

definition RequestIDFromContext :: "go_context option \<Rightarrow> string \<times> bool" where
  "RequestIDFromContext ctx =
     (case ctx of
        None \<Rightarrow> ([], False)
      | Some c \<Rightarrow>
          (case key_request_id c of
             Some v \<Rightarrow> if v \<noteq> [] then (v, True) else ([], False)
           | None \<Rightarrow> ([], False)))"

section \<open>Requests and responses\<close>

datatype route =
    R_Ping
  | R_Metrics
  | R_Order string
  | R_CustomerOrders string
  | R_Static string
  | R_NoRoute
  | R_NoMethod

record request =
  rq_route :: route
  rq_query :: query
  rq_id_header :: string
  rq_context :: go_context
  rq_method :: string
  rq_path :: string

datatype body =
    Body_Order order
  | Body_Orders "order slice"
  | Body_Error string
  | Body_Text string
  | Body_Metrics
  | Body_File string

record response =
  rs_status :: nat
  rs_body :: body
  rs_id_header :: string
  rs_allow :: "string option"

section \<open>Handlers\<close>

text \<open>\<open>NewHandler\<close>: the time limit of a request, 3 seconds unless a positive one is given.\<close>

definition handler_timeout :: "duration \<Rightarrow> duration" where
  "handler_timeout reqTimeout = (if sint reqTimeout \<le> 0 then 3 * 1000000000 else reqTimeout)"

definition getOrderByID :: "'s read_port \<Rightarrow> string \<Rightarrow> 's \<Rightarrow> (nat \<times> body) \<times> 's" where
  "getOrderByID rs uid s =
     (if uid = [] then ((400, Body_Error ''empty id''), s)
      else case rs_GetOrder rs uid s of
        (Inl err, s1) \<Rightarrow> ((500, Body_Error ''internal server error''), s1)
      | (Inr None, s1) \<Rightarrow> ((404, Body_Error ''order not found''), s1)
      | (Inr (Some ord), s1) \<Rightarrow> ((200, Body_Order ord), s1))"

definition listOrdersByCustomer :: "'s read_port \<Rightarrow> string \<Rightarrow> query \<Rightarrow> 's \<Rightarrow> (nat \<times> body) \<times> 's" where
  "listOrdersByCustomer rs cust q s =
     (if cust = [] then ((400, Body_Error ''empty customer id''), s)
      else
        (let defaultLimit = 20; maxLimit = 100;
             (limit, offset) = ParseLimitOffset q defaultLimit maxLimit
         in case rs_OrdersByCustomer rs cust limit offset s of
              (Inl err, s1) \<Rightarrow> ((500, Body_Error ''internal server error''), s1)
            | (Inr orders, s1) \<Rightarrow> ((200, Body_Orders orders), s1)))"

text \<open>
  The identifier a request runs under: the client's, or the generated one; it goes into the
  response header and the context.
\<close>

definition RequestIDMiddleware :: "string \<Rightarrow> request \<Rightarrow> string \<times> go_context option" where
  "RequestIDMiddleware uuid rq =
     (let requestID = (if rq_id_header rq = [] then uuid else rq_id_header rq)
      in (requestID, WithRequestID (Some (rq_context rq)) requestID))"

text \<open>What the logger writes of a finished request; nothing for the two service routes.\<close>

record log_line =
  log_id :: string
  log_method :: string
  log_path :: string
  log_status :: nat

fun full_path :: "route \<Rightarrow> string" where
  "full_path R_Ping = ''/ping''"
| "full_path R_Metrics = ''/metrics''"
| "full_path (R_Order uid) = ''/order/:id''"
| "full_path (R_CustomerOrders cust) = ''/customer/:id/orders''"
| "full_path (R_Static p) = (if p = [] then ''/'' else ''/static/*filepath'')"
| "full_path R_NoRoute = []"
| "full_path R_NoMethod = []"

definition RequestLogger :: "request \<Rightarrow> go_context option \<Rightarrow> nat \<Rightarrow> log_line list" where
  "RequestLogger rq ctx status =
     (if full_path (rq_route rq) = ''/metrics'' \<or> full_path (rq_route rq) = ''/ping'' then []
      else
        (let path = (if full_path (rq_route rq) = [] then rq_path rq else full_path (rq_route rq));
             (rid, _) = RequestIDFromContext ctx
         in [\<lparr>log_id = rid, log_method = rq_method rq, log_path = path, log_status = status\<rparr>]))"

text \<open>
  The router: every request passes \<open>RequestIDMiddleware\<close>; the two API routes are logged.
\<close>

definition serve :: "'s read_port \<Rightarrow> string \<Rightarrow> request \<Rightarrow> 's \<Rightarrow> (response \<times> log_line list) \<times> 's" where
  "serve rs uuid rq s =
     (let (requestID, ctx) = RequestIDMiddleware uuid rq;
          plain = (\<lambda>st b allow.
            ((\<lparr>rs_status = st, rs_body = b, rs_id_header = requestID, rs_allow = allow\<rparr>, []), s));
          api = (\<lambda>res. case res of ((st, b), s1) \<Rightarrow>
            ((\<lparr>rs_status = st, rs_body = b, rs_id_header = requestID, rs_allow = None\<rparr>,
              RequestLogger rq ctx st), s1))
      in case rq_route rq of
           R_Ping \<Rightarrow> plain 200 (Body_Text ''pong'') None
         | R_Metrics \<Rightarrow> plain 200 Body_Metrics None
         | R_Order uid \<Rightarrow> api (getOrderByID rs uid s)
         | R_CustomerOrders cust \<Rightarrow> api (listOrdersByCustomer rs cust (rq_query rq) s)
         | R_Static p \<Rightarrow> plain 200 (Body_File p) None
         | R_NoRoute \<Rightarrow> plain 404 (Body_Error ''route not found'') None
         | R_NoMethod \<Rightarrow> plain 405 (Body_Error ''method not allowed'') (Some ''GET''))"

section \<open>What the handlers answer\<close>

lemma sint_one_hundred [simp]: "sint (100 :: goint) = 100" "sint (20 :: goint) = 20"
  by simp_all

lemma ParseLimitOffset_range:
  assumes "1 \<le> sint defaultLimit" and "sint defaultLimit \<le> sint maxLimit"
    and "ParseLimitOffset q defaultLimit maxLimit = (limit, offset)"
  shows "1 \<le> sint limit \<and> sint limit \<le> sint maxLimit \<and> 0 \<le> sint offset"
  using assms by (auto simp: ParseLimitOffset_def Let_def ClampInt_def split: option.splits if_splits)

context order_reader
begin

lemma order_answer:
  assumes "inv s" and "getOrderByID rs uid s = ((200, b), s1)"
  shows "\<exists>ord. b = Body_Order ord \<and> OrderUID ord = uid \<and> uid \<noteq> [] \<and> inv s1"
  using assms get_uid [OF assms(1), of uid] get_inv [OF assms(1), of uid]
  by (auto simp: getOrderByID_def split: if_splits prod.splits sum.splits option.splits)

lemma list_answer:
  assumes "inv s" and "listOrdersByCustomer rs cust q s = ((200, b), s1)"
  shows "\<exists>ords. b = Body_Orders ords \<and> (\<forall>ord\<in>set (slice_list ords). CustomerID ord = cust) \<and>
    int (length (slice_list ords)) \<le> 100 \<and> inv s1"
proof -
  obtain limit offset where lo: "ParseLimitOffset q 20 100 = (limit, offset)"
    by (cases "ParseLimitOffset q 20 100")
  have range: "1 \<le> sint limit" "sint limit \<le> 100"
    using ParseLimitOffset_range [of 20 100 q limit offset] lo by simp_all
  obtain ords where ords: "rs_OrdersByCustomer rs cust limit offset s = (Inr ords, s1)" "b = Body_Orders ords"
    using assms(2) lo by (auto simp: listOrdersByCustomer_def split: if_splits prod.splits sum.splits)
  then show ?thesis
    using range list_customer [OF assms(1), of cust limit offset ords]
      list_limit [OF assms(1), of cust limit offset ords] list_inv [OF assms(1), of cust limit offset]
    by auto
qed

end

end
