(* ===== verification/Validate.thy ===== *)
theory Validate
  imports Ports Go_Strings
begin

text \<open>
  The domain validator (\<open>pkg/validate/order_validator.go\<close>) and the JSON, JSONL and file
  validation built on it (\<open>validate_from_json.go\<close>, \<open>validate_from_jsonl.go\<close>,
  \<open>validate_file.go\<close>, \<open>cmd/validate-orders/main.go\<close>).

  The decoder and encoder of \<open>encoding/json\<close> and the address parser of \<open>net/mail\<close> are
  arguments.  The error texts of the code are Russian; the model keeps the part that names
  the field, and the wrapped sentinel.
\<close>

section \<open>The validator\<close>

definition invalid :: "string \<Rightarrow> goerror option" where
  "invalid msg = Some (Wrapf msg (Sentinel Validate_ErrInvalidOrder))"

text \<open>\<open>time.Date(2000, 1, 1, 0, 0, 0, 0, time.UTC)\<close>: 730119 days after the zero time.\<close>

definition year_2000 :: instant where
  "year_2000 = 730119 * 86400 * 10 ^ 9"

definition validateCore :: "order option \<Rightarrow> goerror option" where
  "validateCore p =
     (case p of
        None \<Rightarrow> invalid ''order nil''
      | Some ord \<Rightarrow>
          if OrderUID ord = [] then invalid ''order_uid''
          else if TrackNumber ord = [] then invalid ''track_number''
          else if Entry ord = [] then invalid ''entry''
          else if DateCreated ord = time_zero \<or> DateCreated ord < year_2000
               then invalid ''date_created''
          else None)"

definition validatePayment :: "payment \<Rightarrow> goerror option" where
  "validatePayment p =
     (if pTransaction p = [] then invalid ''payment.transaction''
      else if pCurrency p = [] then invalid ''payment.currency''
      else if sint (pAmount p) < 0 then invalid ''payment.amount''
      else None)"

text \<open>\<open>parse_ok\<close> tells whether \<open>mail.ParseAddress\<close> accepts the string.\<close>

definition validateDelivery :: "(string \<Rightarrow> bool) \<Rightarrow> delivery \<Rightarrow> goerror option" where
  "validateDelivery parse_ok d =
     (if dEmail d = [] then invalid ''delivery.email''
      else if \<not> parse_ok (dEmail d) then invalid ''delivery.email format''
      else None)"

fun validateItems_from :: "nat \<Rightarrow> item list \<Rightarrow> goerror option" where
  "validateItems_from i [] = None"
| "validateItems_from i (it # its) =
     (if iName it = [] then invalid (''items['' @ itoa_nat i @ ''].name'')
      else if sint (iPrice it) < 0 then invalid (''items['' @ itoa_nat i @ ''].price'')
      else if sint (iTotalPrice it) < 0 then invalid (''items['' @ itoa_nat i @ ''].total_price'')
      else validateItems_from (Suc i) its)"

definition validateItems :: "item slice \<Rightarrow> goerror option" where
  "validateItems s =
     (if slice_list s = [] then invalid ''items empty'' else validateItems_from 0 (slice_list s))"

definition Validate :: "(string \<Rightarrow> bool) \<Rightarrow> order option \<Rightarrow> goerror option" where
  "Validate parse_ok p =
     (case validateCore p of
        Some err \<Rightarrow> Some err
      | None \<Rightarrow>
          (case p of
             None \<Rightarrow> None \<comment> \<open>not reached: \<open>validateCore\<close> rejects nil\<close>
           | Some ord \<Rightarrow>
               (case validatePayment (Payment ord) of
                  Some err \<Rightarrow> Some err
                | None \<Rightarrow>
                    (case validateDelivery parse_ok (Delivery ord) of
                       Some err \<Rightarrow> Some err
                     | None \<Rightarrow> validateItems (Items ord)))))"

section \<open>One JSON document\<close>

text \<open>
  What is used of \<open>encoding/json\<close>: strict decoding of one value into an order, answering
  the order and the input left over; decoding the rest into an empty struct, with the
  error it gives; and marshalling an order.
\<close>

record json_lib =
  decode_order :: "string \<Rightarrow> goerror + order \<times> string"
  decode_rest :: "string \<Rightarrow> goerror option"
  json_Marshal :: "order \<Rightarrow> string"



definition ValidateOrderFromJSON :: "json_lib \<Rightarrow> validator \<Rightarrow> string \<Rightarrow> goerror + order" where
  "ValidateOrderFromJSON js validator raw =
     (case decode_order js raw of
        Inl err \<Rightarrow> Inl (Wrapf ''invalid json'' err)
      | Inr (ord, rest) \<Rightarrow>
          if decode_rest js rest \<noteq> Some (Sentinel IO_EOF)
          then Inl (Errorf ''invalid json: trailing data'')
          else (case validator (Some ord) of
                  Some err \<Rightarrow> Inl err
                | None \<Rightarrow> Inr ord))"

section \<open>Scanning lines\<close>

text \<open>
  \<open>bufio.Scanner\<close> with \<open>ScanLines\<close>: the pieces between newlines, the last one only if it
  is not empty, each without one trailing carriage return.  The scanner stops with
  \<open>ErrTooLong\<close> at the first piece that does not fit, with its end, into the 10 MiB buffer.
  An error of the reader is reported after the data read before it.
\<close>

abbreviation LF :: char where "LF \<equiv> CHR 0x0A"
abbreviation CR :: char where "CR \<equiv> CHR 0x0D"

function raw_lines :: "string \<Rightarrow> string list" where
  "raw_lines s =
     (if s = [] then []
      else takeWhile (\<lambda>ch. ch \<noteq> LF) s # raw_lines (drop 1 (dropWhile (\<lambda>ch. ch \<noteq> LF) s)))"
  by pat_completeness auto
termination
proof (relation "measure length", simp)
  fix s :: string
  assume "s \<noteq> []"
  then have "length (dropWhile (\<lambda>ch. ch \<noteq> LF) s) - 1 < length s"
    using length_dropWhile_le [of "\<lambda>ch. ch \<noteq> LF" s] by (cases s) auto
  then show "(drop 1 (dropWhile (\<lambda>ch. ch \<noteq> LF) s), s) \<in> measure length" by simp
qed

declare raw_lines.simps [simp del]

definition drop_cr :: "string \<Rightarrow> string" where
  "drop_cr l = (if l \<noteq> [] \<and> last l = CR then butlast l else l)"

definition max_token :: nat where "max_token = 10 * 1024 * 1024"

record input_stream =
  in_data :: string
  in_err :: "goerror option"

definition scan_tokens :: "input_stream \<Rightarrow> string list" where
  "scan_tokens inp = map drop_cr (takeWhile (\<lambda>l. length l < max_token) (raw_lines (in_data inp)))"

definition scan_err :: "input_stream \<Rightarrow> goerror option" where
  "scan_err inp =
     (if list_all (\<lambda>l. length l < max_token) (raw_lines (in_data inp)) then in_err inp
      else Some (Sentinel Bufio_ErrTooLong))"

section \<open>JSONL streams\<close>

record jsonl_result =
  ValidLinesCount :: nat
  InvalidLinesCount :: nat

text \<open>An \<open>io.Writer\<close>: writing a string into the output \<open>'o\<close>, with the error, if any.\<close>

type_synonym 'o writer = "string \<Rightarrow> 'o \<Rightarrow> goerror option \<times> 'o"

fun jsonl_loop ::
    "json_lib \<Rightarrow> validator \<Rightarrow> 'o writer \<Rightarrow> string list \<Rightarrow> jsonl_result \<Rightarrow> 'o
     \<Rightarrow> (jsonl_result \<times> goerror option) \<times> 'o" where
  "jsonl_loop js validator wr [] res ow = ((res, None), ow)"
| "jsonl_loop js validator wr (line # lines) res ow =
     (if trim_space line = [] then jsonl_loop js validator wr lines res ow
      else case ValidateOrderFromJSON js validator line of
        Inl err \<Rightarrow>
          jsonl_loop js validator wr lines (res\<lparr>InvalidLinesCount := Suc (InvalidLinesCount res)\<rparr>) ow
      | Inr ord \<Rightarrow>
          (case wr (json_Marshal js ord) ow of
             (Some err, ow) \<Rightarrow> ((res, Some (Wrapf ''write valid line'' err)), ow)
           | (None, ow) \<Rightarrow>
               (case wr [LF] ow of
                  (Some err, ow) \<Rightarrow> ((res, Some (Wrapf ''write newline'' err)), ow)
                | (None, ow) \<Rightarrow>
                    jsonl_loop js validator wr lines
                      (res\<lparr>ValidLinesCount := Suc (ValidLinesCount res)\<rparr>) ow)))"

definition ValidateJSONLStream ::
    "json_lib \<Rightarrow> validator \<Rightarrow> 'o writer \<Rightarrow> input_stream \<Rightarrow> 'o \<Rightarrow> (jsonl_result \<times> goerror option) \<times> 'o"
where
  "ValidateJSONLStream js validator wr inp ow =
     (case jsonl_loop js validator wr (scan_tokens inp)
             \<lparr>ValidLinesCount = 0, InvalidLinesCount = 0\<rparr> ow of
        ((res, Some err), ow) \<Rightarrow> ((res, Some err), ow)
      | ((res, None), ow) \<Rightarrow>
          (case scan_err inp of
             Some err \<Rightarrow> ((res, Some (Wrapf ''scan'' err)), ow)
           | None \<Rightarrow> ((res, None), ow)))"

section \<open>Files\<close>

text \<open>\<open>filepath.Ext\<close>: from the last dot of the last path element.\<close>

definition path_ext :: "string \<Rightarrow> string" where
  "path_ext path =
     (let r = takeWhile (\<lambda>ch. ch \<noteq> CHR ''/'') (rev path)
      in if CHR ''.'' \<in> set r then CHR ''.'' # rev (takeWhile (\<lambda>ch. ch \<noteq> CHR ''.'') r) else [])"

definition resolve_format :: "string \<Rightarrow> string \<Rightarrow> string" where
  "resolve_format filePath format =
     (if format = ''auto'' then
        (let ext = go_lower (path_ext filePath)
         in if ext = ''.jsonl'' then ''jsonl'' else if ext = ''.json'' then ''json'' else ''json'')
      else format)"

definition summary :: "nat \<Rightarrow> nat \<Rightarrow> string" where
  "summary v i = itoa_nat v @ '' valid / '' @ itoa_nat i @ '' invalid''"

text \<open>\<open>open_file\<close> answers \<open>os.Open\<close>: an error, or the file's content and its read error.\<close>

definition ValidateFile ::
    "json_lib \<Rightarrow> validator \<Rightarrow> (string \<Rightarrow> goerror + input_stream) \<Rightarrow> 'o writer \<Rightarrow> string \<Rightarrow> string
     \<Rightarrow> 'o \<Rightarrow> (string \<times> goerror option) \<times> 'o" where
  "ValidateFile js validator open_file wr filePath format0 ow =
     (let format = resolve_format filePath format0
      in case open_file filePath of
           Inl err \<Rightarrow> (([], Some (Wrapf ''open file'' err)), ow)
         | Inr file \<Rightarrow>
             if format = ''json'' then
               (case in_err file of
                  Some err \<Rightarrow> (([], Some (Wrapf ''read file'' err)), ow)
                | None \<Rightarrow>
                    (case ValidateOrderFromJSON js validator (in_data file) of
                       Inl err \<Rightarrow> ((''0 valid / 1 invalid'', Some err), ow)
                     | Inr ord \<Rightarrow>
                         (case wr (json_Marshal js ord) ow of
                            (Some err, ow) \<Rightarrow> (([], Some (Wrapf ''write json'' err)), ow)
                          | (None, ow) \<Rightarrow>
                              (case wr [LF] ow of
                                 (Some err, ow) \<Rightarrow> (([], Some (Wrapf ''write newline'' err)), ow)
                               | (None, ow) \<Rightarrow> ((''1 valid / 0 invalid'', None), ow)))))
             else if format = ''jsonl'' then
               (case ValidateJSONLStream js validator wr file ow of
                  ((res, Some err), ow) \<Rightarrow> (([], Some err), ow)
                | ((res, None), ow) \<Rightarrow>
                    ((summary (ValidLinesCount res) (InvalidLinesCount res), None), ow))
             else (([], Some (Errorf (''unsupported format: '' @ format))), ow))"

text \<open>
  The command: \<open>main\<close> of \<open>cmd/validate-orders\<close>, from its flags to the exit status and
  what it prints to standard error, the summary and the error.
\<close>

definition validate_orders_main ::
    "json_lib \<Rightarrow> (string \<Rightarrow> bool) \<Rightarrow> (string \<Rightarrow> goerror + input_stream) \<Rightarrow> 'o writer \<Rightarrow> string \<Rightarrow> string
     \<Rightarrow> 'o \<Rightarrow> (nat \<times> string \<times> goerror option) \<times> 'o" where
  "validate_orders_main js parse_ok open_file wr inputPath formatStr ow =
     (let orderValidator = Validate parse_ok;
          (path, format) =
            (if inputPath = [] then
               (''/dev/stdin'', if formatStr = ''auto'' then ''jsonl'' else formatStr)
             else (inputPath, formatStr))
      in case ValidateFile js orderValidator open_file wr path format ow of
           ((sm, Some err), ow) \<Rightarrow> ((1, sm, Some err), ow)
         | ((sm, None), ow) \<Rightarrow> ((0, sm, None), ow))"

end
