(* ===== verification/Service.thy ===== *)
theory Service
  imports Ports Validate
begin

text \<open>
  The application service (\<open>internal/usecase/order_service.go\<close>): \<open>GetOrder\<close>, \<open>OrdersByCustomer\<close>,
  \<open>SaveFromMessage\<close> and \<open>WarmUpCache\<close> over the ports, and what it guarantees for any cache,
  repository and validator that keep their contracts.

  The state is the pair of the cache's and the repository's states.  Logging is left out; it
  has no influence on what the operations do.
\<close>

section \<open>Operations\<close>

record ('c, 'r) order_service =
  svc_repo :: "'r repo_port"
  svc_cache :: "'c cache_port"
  svc_validator :: validator
  svc_json :: json_lib

definition GetOrder ::
    "('c, 'r) order_service \<Rightarrow> string \<Rightarrow> 'c \<times> 'r \<Rightarrow> (goerror + order option) \<times> ('c \<times> 'r)" where
  "GetOrder svc orderUID s =
     (case s of (c, r) \<Rightarrow>
       (case cp_Get (svc_cache svc) orderUID c of
          ((ord, True), c1) \<Rightarrow> (Inr ord, (c1, r))
        | ((_, False), c1) \<Rightarrow>
            (case rp_GetByUID (svc_repo svc) orderUID r of
               (Inl err, r1) \<Rightarrow> (Inl err, (c1, r1))
             | (Inr ord, r1) \<Rightarrow>
                 (if ord \<noteq> None
                  then (case cp_Set (svc_cache svc) ord c1 of (setErr, c2) \<Rightarrow> (Inr ord, (c2, r1)))
                  else (Inr ord, (c1, r1))))))"

definition OrdersByCustomer ::
    "('c, 'r) order_service \<Rightarrow> string \<Rightarrow> goint \<Rightarrow> goint \<Rightarrow> 'c \<times> 'r
     \<Rightarrow> (goerror + order slice) \<times> ('c \<times> 'r)" where
  "OrdersByCustomer svc customerID limit offset s =
     (case s of (c, r) \<Rightarrow>
       (case rp_ListByCustomer (svc_repo svc) customerID limit offset r of (res, r1) \<Rightarrow> (res, (c, r1))))"

definition SaveFromMessage ::
    "('c, 'r) order_service \<Rightarrow> string \<Rightarrow> 'c \<times> 'r \<Rightarrow> goerror option \<times> ('c \<times> 'r)" where
  "SaveFromMessage svc raw s =
     (case s of (c, r) \<Rightarrow>
       (case decode_order (svc_json svc) raw of
          Inl err \<Rightarrow> (Some (Wrapf ''invalid json'' err), s)
        | Inr (ord, rest) \<Rightarrow>
            if decode_rest (svc_json svc) rest \<noteq> Some (Sentinel IO_EOF)
            then (Some (Errorf ''invalid json: trailing data''), s)
            else (case svc_validator svc (Some ord) of
                    Some err \<Rightarrow> (Some (Wrapf ''validation failed'' err), s)
                  | None \<Rightarrow>
                      (case rp_Save (svc_repo svc) (Some ord) r of
                         (Some err, r1) \<Rightarrow> (Some (Wrapf ''failed to save order'' err), (c, r1))
                       | (None, r1) \<Rightarrow>
                           (case cp_Set (svc_cache svc) (Some ord) c of
                              (setErr, c1) \<Rightarrow> (None, (c1, r1)))))))"

definition WarmUpCache ::
    "('c, 'r) order_service \<Rightarrow> goint \<Rightarrow> 'c \<times> 'r \<Rightarrow> goerror option \<times> ('c \<times> 'r)" where
  "WarmUpCache svc n s =
     (case s of (c, r) \<Rightarrow>
       if sint n \<le> 0 then (None, s)
       else
         (case rp_LastN (svc_repo svc) n r of
            (Inl err, r1) \<Rightarrow> (Some err, (c, r1))
          | (Inr ords, r1) \<Rightarrow>
              (case cp_WarmUp (svc_cache svc) (map Some (slice_list ords)) c of
                 (warmUpErr, c1) \<Rightarrow> (None, (c1, r1)))))"

text \<open>One request to the service, as the transports make them.\<close>

datatype svc_op =
    Op_GetOrder string
  | Op_OrdersByCustomer string goint goint
  | Op_SaveFromMessage string
  | Op_WarmUpCache goint

fun svc_step :: "('c, 'r) order_service \<Rightarrow> svc_op \<Rightarrow> 'c \<times> 'r \<Rightarrow> 'c \<times> 'r" where
  "svc_step svc (Op_GetOrder uid) s = snd (GetOrder svc uid s)"
| "svc_step svc (Op_OrdersByCustomer cust limit offset) s = snd (OrdersByCustomer svc cust limit offset s)"
| "svc_step svc (Op_SaveFromMessage raw) s = snd (SaveFromMessage svc raw s)"
| "svc_step svc (Op_WarmUpCache n) s = snd (WarmUpCache svc n s)"

definition svc_run :: "('c, 'r) order_service \<Rightarrow> svc_op list \<Rightarrow> 'c \<times> 'r \<Rightarrow> 'c \<times> 'r" where
  "svc_run svc ops s = fold (svc_step svc) ops s"

text \<open>The reading half, as the HTTP transport is given it.\<close>

definition read_service :: "('c, 'r) order_service \<Rightarrow> ('c \<times> 'r) read_port" where
  "read_service svc = \<lparr>rs_GetOrder = GetOrder svc, rs_OrdersByCustomer = OrdersByCustomer svc\<rparr>"

section \<open>The contract of the parts\<close>

locale service =
  cache: order_cache cinv cview cp +
  repo: order_repository rinv rview rp same +
  order_validator vp
  for cinv :: "'c \<Rightarrow> bool" and cview and cp and rinv :: "'r \<Rightarrow> bool" and rview and rp and same and vp +
  fixes svc :: "('c, 'r) order_service"
  assumes parts: "svc_cache svc = cp" "svc_repo svc = rp" "svc_validator svc = vp"
begin

definition svc_inv :: "'c \<times> 'r \<Rightarrow> bool" where
  "svc_inv s \<longleftrightarrow> cinv (fst s) \<and> rinv (snd s)"

text \<open>Everything cached is in the repository, up to what storing changes.\<close>

definition coherent :: "'c \<times> 'r \<Rightarrow> bool" where
  "coherent s \<longleftrightarrow> (\<forall>uid ord. cview (fst s) uid = Some ord \<longrightarrow>
     (\<exists>ord'. rview (snd s) uid = Some ord' \<and> same ord ord'))"

lemma coherentD:
  "coherent s \<Longrightarrow> cview (fst s) uid = Some ord \<Longrightarrow> \<exists>ord'. rview (snd s) uid = Some ord' \<and> same ord ord'"
  by (simp add: coherent_def)

lemma same_cloned: "same a b \<Longrightarrow> same (clone_of a) b"
  using repo.same_clone repo.same_sym repo.same_trans by blast

lemma cache_set_inv: "cinv c \<Longrightarrow> cp_Set cp p c = (e, c2) \<Longrightarrow> cinv c2"
  using cache.set_inv [of c p] by simp

lemma cache_get_inv: "cinv c \<Longrightarrow> cp_Get cp uid c = (res, c1) \<Longrightarrow> cinv c1"
  using cache.get_inv [of c uid] by simp

lemma repo_get_inv: "rinv r \<Longrightarrow> rp_GetByUID rp uid r = (res, r1) \<Longrightarrow> rinv r1"
  using repo.get_inv [of r uid] by simp

lemma repo_save_inv: "rinv r \<Longrightarrow> rp_Save rp p r = (res, r1) \<Longrightarrow> rinv r1"
  using repo.save_inv [of r p] by simp

lemmas part_invs = cache_set_inv cache_get_inv repo_get_inv repo_save_inv

subsection \<open>\<open>GetOrder\<close>\<close>

lemma GetOrder_cases:
  assumes "svc_inv (c, r)"
  obtains (hit) ord c1 where "cp_Get cp uid c = ((Some ord, True), c1)" "cview c uid = Some ord"
      "GetOrder svc uid (c, r) = (Inr (Some ord), (c1, r))"
  | (failed) c1 err r1 where "cp_Get cp uid c = ((None, False), c1)"
      "rp_GetByUID rp uid r = (Inl err, r1)" "GetOrder svc uid (c, r) = (Inl err, (c1, r1))"
  | (absent) c1 r1 where "cp_Get cp uid c = ((None, False), c1)"
      "rp_GetByUID rp uid r = (Inr None, r1)" "rview r uid = None"
      "GetOrder svc uid (c, r) = (Inr None, (c1, r1))"
  | (fetched) c1 ord ord' r1 c2 where "cp_Get cp uid c = ((None, False), c1)"
      "rp_GetByUID rp uid r = (Inr (Some ord), r1)" "rview r uid = Some ord'" "same ord ord'"
      "OrderUID ord = uid" "uid \<noteq> []" "cp_Set cp (Some ord) c1 = (None, c2)"
      "GetOrder svc uid (c, r) = (Inr (Some ord), (c2, r1))"
proof -
  have inv: "cinv c" "rinv r" using assms by (simp_all add: svc_inv_def)
  obtain p b c1 where get: "cp_Get cp uid c = ((p, b), c1)" by (metis prod.exhaust)
  show thesis
  proof (cases b)
    case True
    then have "p \<noteq> None \<and> cview c uid = p"
      using cache.get_hit [OF inv(1), of uid p] get by simp
    then show thesis
      using get True by (intro hit [of "the p" c1]) (auto simp: GetOrder_def parts)
  next
    case False
    then have p: "p = None" using cache.get_miss [OF inv(1), of uid p] get by simp
    obtain res r1 where db: "rp_GetByUID rp uid r = (res, r1)" by (cases "rp_GetByUID rp uid r")
    show thesis
    proof (cases res)
      case (Inl err)
      then show thesis
        using get False p db by (intro failed [of c1 err r1]) (simp_all add: GetOrder_def parts)
    next
      case (Inr q)
      then have rel: "rel_option same q (rview r uid)" using repo.get_ok [OF inv(2), of uid q] db by simp
      show thesis
      proof (cases q)
        case None
        then show thesis
          using get False p db Inr rel by (intro absent [of c1 r1]) (simp_all add: GetOrder_def parts)
      next
        case (Some ord)
        then obtain ord' where ord': "rview r uid = Some ord'" "same ord ord'"
          using rel by (auto simp: option_rel_Some1)
        then have uid: "OrderUID ord = uid" "uid \<noteq> []"
          using repo.view_key [OF inv(2) ord'(1)] repo.same_uid [OF ord'(2)] by auto
        have "cinv c1" using cache.get_inv [OF inv(1), of uid] get by simp
        then obtain c2 where set: "cp_Set cp (Some ord) c1 = (None, c2)"
          using cache.set_ok [of c1 ord] uid by (cases "cp_Set cp (Some ord) c1") simp
        show thesis
          using get False p db Inr Some ord' uid set
          by (intro fetched [of c1 ord r1 ord' c2]) (simp_all add: GetOrder_def parts)
      qed
    qed
  qed
qed

lemma GetOrder_inv: "svc_inv s \<Longrightarrow> svc_inv (snd (GetOrder svc uid s))"
proof -
  assume inv: "svc_inv s"
  obtain c r where s: "s = (c, r)" by (cases s)
  note i = inv [unfolded s]
  show ?thesis unfolding s
    using i by (cases rule: GetOrder_cases [where uid = uid]) (use i in \<open>auto simp: svc_inv_def intro: part_invs\<close>)
qed

lemma GetOrder_coherent:
  assumes "svc_inv s" and "coherent s"
  shows "coherent (snd (GetOrder svc uid s))"
proof -
  obtain c r where s: "s = (c, r)" by (cases s)
  note i = assms(1) [unfolded s]
  have inv: "cinv c" "rinv r" using i by (simp_all add: svc_inv_def)
  have sub: "cview c1 k = Some x \<Longrightarrow> cview c k = Some x" if "cp_Get cp uid c = (res, c1)" for res c1 k x
    using cache.get_view_mem [OF inv(1), of uid k x] that by simp
  have db: "rview r1 = rview r" if "rp_GetByUID rp uid r = (res, r1)" for res r1
    using repo.get_view [OF inv(2), of uid] that by simp
  show ?thesis unfolding s
    using i
  proof (cases rule: GetOrder_cases [where uid = uid])
    case (fetched c1 ord ord' r1 c2)
    have "cinv c1" using cache.get_inv [OF inv(1), of uid] fetched(1) by simp
    moreover have "OrderUID ord \<noteq> []" using fetched(5,6) by simp
    ultimately have "k = uid \<and> x = clone_of ord \<or> cview c1 k = Some x" if "cview c2 k = Some x" for k x
      using cache.set_view_mem [of c1 ord k x] fetched(5,7) that by auto
    then show "coherent (snd (GetOrder svc uid (c, r)))"
      using assms(2) fetched(3,4,8) sub [OF fetched(1)] db [OF fetched(2)] same_cloned
      by (fastforce simp: coherent_def s)
  qed (use assms(2) sub db in \<open>auto simp: coherent_def s\<close>)
qed

text \<open>An answer is the order the repository has, or there is none.\<close>

lemma GetOrder_answer:
  assumes "svc_inv s" and "coherent s" and "fst (GetOrder svc uid s) = Inr p"
  shows "rel_option same p (rview (snd s) uid)"
proof -
  obtain c r where s: "s = (c, r)" by (cases s)
  from assms(1) [unfolded s] show ?thesis
  proof (cases rule: GetOrder_cases [where uid = uid])
    case (hit ord c1)
    then have "p = Some ord" using assms(3) by (simp add: s)
    moreover obtain ord' where "rview r uid = Some ord'" "same ord ord'"
      using coherentD [OF assms(2), of uid ord] hit(2) by (auto simp: s)
    ultimately show ?thesis by (simp add: s)
  qed (use assms(3) in \<open>auto simp: s\<close>)
qed

subsection \<open>\<open>SaveFromMessage\<close>\<close>

text \<open>The order of a message, when it is one document that decodes strictly.\<close>

definition decoded :: "string \<Rightarrow> order option" where
  "decoded raw =
     (case decode_order (svc_json svc) raw of
        Inl err \<Rightarrow> None
      | Inr (ord, rest) \<Rightarrow>
          if decode_rest (svc_json svc) rest = Some (Sentinel IO_EOF) then Some ord else None)"

lemma SaveFromMessage_cases:
  assumes "svc_inv (c, r)"
  obtains (malformed) err where "decoded raw = None"
      "SaveFromMessage svc raw (c, r) = (Some err, (c, r))"
      "err = Errorf ''invalid json: trailing data'' \<or>
       (\<exists>e. decode_order (svc_json svc) raw = Inl e \<and> err = Wrapf ''invalid json'' e)"
  | (invalid) ord err where "decoded raw = Some ord" "vp (Some ord) = Some err"
      "SaveFromMessage svc raw (c, r) = (Some (Wrapf ''validation failed'' err), (c, r))"
  | (not_saved) ord err r1 where "decoded raw = Some ord" "vp (Some ord) = None"
      "rp_Save rp (Some ord) r = (Some err, r1)"
      "SaveFromMessage svc raw (c, r) = (Some (Wrapf ''failed to save order'' err), (c, r1))"
  | (saved) ord r1 c1 where "decoded raw = Some ord" "vp (Some ord) = None" "OrderUID ord \<noteq> []"
      "rp_Save rp (Some ord) r = (None, r1)" "cp_Set cp (Some ord) c = (None, c1)"
      "SaveFromMessage svc raw (c, r) = (None, (c1, r1))"
proof -
  have inv: "cinv c" using assms by (simp add: svc_inv_def)
  show thesis
  proof (cases "decoded raw")
    case None
    then show thesis
      by (intro malformed [of "the (fst (SaveFromMessage svc raw (c, r)))"])
        (auto simp: decoded_def SaveFromMessage_def split: sum.splits if_splits)
  next
    case (Some ord)
    then obtain rest where dec: "decode_order (svc_json svc) raw = Inr (ord, rest)"
      "decode_rest (svc_json svc) rest = Some (Sentinel IO_EOF)"
      by (auto simp: decoded_def split: sum.splits if_splits)
    show thesis
    proof (cases "vp (Some ord)")
      case None
      obtain res r1 where save: "rp_Save rp (Some ord) r = (res, r1)" by (cases "rp_Save rp (Some ord) r")
      have uid: "OrderUID ord \<noteq> []" using None by (rule accepts_named)
      obtain c1 where set: "cp_Set cp (Some ord) c = (None, c1)"
        using cache.set_ok [OF inv uid] by (cases "cp_Set cp (Some ord) c") simp
      show thesis
      proof (cases res)
        case None
        with Some \<open>vp (Some ord) = None\<close> dec save set uid show thesis
          by (intro saved [of ord r1 c1]) (simp_all add: SaveFromMessage_def parts)
      next
        case (Some err)
        with \<open>decoded raw = Some ord\<close> \<open>vp (Some ord) = None\<close> dec save show thesis
          by (intro not_saved [of ord err r1]) (simp_all add: SaveFromMessage_def parts)
      qed
    next
      case (Some err)
      with \<open>decoded raw = Some ord\<close> dec show thesis
        by (intro invalid [of ord err]) (simp_all add: SaveFromMessage_def parts)
    qed
  qed
qed

lemma SaveFromMessage_inv: "svc_inv s \<Longrightarrow> svc_inv (snd (SaveFromMessage svc raw s))"
proof -
  assume inv: "svc_inv s"
  obtain c r where s: "s = (c, r)" by (cases s)
  show ?thesis unfolding s
    using inv [unfolded s] by (cases rule: SaveFromMessage_cases [where raw = raw])
      (use inv in \<open>auto simp: s svc_inv_def intro: part_invs\<close>)
qed

text \<open>A save that succeeds, or fails without effect, keeps cache and repository coherent.\<close>

lemma SaveFromMessage_coherent:
  assumes "svc_inv s" and "coherent s"
    and "fst (SaveFromMessage svc raw s) \<noteq> None \<Longrightarrow> rview (snd (snd (SaveFromMessage svc raw s))) = rview (snd s)"
  shows "coherent (snd (SaveFromMessage svc raw s))"
proof -
  obtain c r where s: "s = (c, r)" by (cases s)
  have inv: "cinv c" "rinv r" using assms(1) by (simp_all add: s svc_inv_def)
  from assms(1) [unfolded s] show ?thesis
  proof (cases rule: SaveFromMessage_cases [where raw = raw])
    case (saved ord r1 c1)
    obtain ord' where view: "same ord ord'" "rview r1 = (rview r)(OrderUID ord \<mapsto> ord')"
      using repo.save_ok [OF inv(2) saved(4)] by blast
    have "k = OrderUID ord \<and> x = clone_of ord \<or> k \<noteq> OrderUID ord \<and> cview c k = Some x"
      if "cview c1 k = Some x" for k x
      using cache.set_view_mem [OF inv(1) saved(3), of k x] saved(5) that by simp
    then show ?thesis
      using assms(2) view saved(6) same_cloned by (fastforce simp: coherent_def s)
  qed (use assms(2,3) in \<open>auto simp: s coherent_def\<close>)
qed

text \<open>
  Only the validator's errors are of the class by which the consumer commits a message, if
  neither the decoder nor the repository makes such an error; then nothing was changed.
\<close>

lemma SaveFromMessage_invalid:
  assumes "svc_inv s" and "fst (SaveFromMessage svc raw s) = Some err"
    and "\<And>e. decode_order (svc_json svc) raw = Inl e \<Longrightarrow> \<not> errors_is e (Sentinel Validate_ErrInvalidOrder)"
    and "\<And>p e. fst (rp_Save rp p (snd s)) = Some e \<Longrightarrow> \<not> errors_is e (Sentinel Validate_ErrInvalidOrder)"
  shows "errors_is err (Sentinel Validate_ErrInvalidOrder) \<longleftrightarrow>
      (\<exists>ord. decoded raw = Some ord \<and> vp (Some ord) \<noteq> None)"
    and "errors_is err (Sentinel Validate_ErrInvalidOrder) \<Longrightarrow> snd (SaveFromMessage svc raw s) = s"
proof -
  obtain c r where s: "s = (c, r)" by (cases s)
  have "(errors_is err (Sentinel Validate_ErrInvalidOrder) \<longleftrightarrow>
      (\<exists>ord. decoded raw = Some ord \<and> vp (Some ord) \<noteq> None)) \<and>
    (errors_is err (Sentinel Validate_ErrInvalidOrder) \<longrightarrow> snd (SaveFromMessage svc raw s) = s)"
    using assms(1) [unfolded s]
  proof (cases rule: SaveFromMessage_cases [where raw = raw])
    case (invalid ord e)
    then show ?thesis using assms(2) error_class by (auto simp: s)
  next
    case (not_saved ord e r1)
    then show ?thesis using assms(2) assms(4) [of "Some ord" e] by (auto simp: s)
  qed (use assms(2,3) in \<open>auto simp: s\<close>)
  then show "errors_is err (Sentinel Validate_ErrInvalidOrder) \<longleftrightarrow>
      (\<exists>ord. decoded raw = Some ord \<and> vp (Some ord) \<noteq> None)"
    and "errors_is err (Sentinel Validate_ErrInvalidOrder) \<Longrightarrow> snd (SaveFromMessage svc raw s) = s"
    by blast+
qed

subsection \<open>The other operations\<close>

lemma WarmUpCache_state:
  assumes "svc_inv s"
  shows "svc_inv (snd (WarmUpCache svc n s))"
    and "rview (snd (snd (WarmUpCache svc n s))) = rview (snd s)"
    and "coherent s \<Longrightarrow> coherent (snd (WarmUpCache svc n s))"
proof -
  obtain c r where s: "s = (c, r)" by (cases s)
  have inv: "cinv c" "rinv r" using assms by (simp_all add: s svc_inv_def)
  obtain res r1 where last: "rp_LastN rp n r = (res, r1)" by (cases "rp_LastN rp n r")
  have r1: "rinv r1" "rview r1 = rview r"
    using repo.last_inv [OF inv(2), of n] repo.last_view [OF inv(2), of n] last by simp_all
  have run: "snd (WarmUpCache svc n s) =
      (if sint n \<le> 0 then s else case res of Inl err \<Rightarrow> (c, r1)
       | Inr ords \<Rightarrow> (snd (cp_WarmUp cp (map Some (slice_list ords)) c), r1))"
    using last by (auto simp: WarmUpCache_def s parts split: sum.split prod.split)
  show "svc_inv (snd (WarmUpCache svc n s))"
    unfolding run using assms inv r1 cache.warm_inv [OF inv(1)] by (simp add: svc_inv_def split: sum.split)
  show "rview (snd (snd (WarmUpCache svc n s))) = rview (snd s)"
    unfolding run using r1 by (simp add: s split: sum.split)
  assume co: "coherent s"
  have "\<exists>ord'. rview r1 uid = Some ord' \<and> same ord ord'"
    if "res = Inr ords" "cview (snd (cp_WarmUp cp (map Some (slice_list ords)) c)) uid = Some ord" for ords uid ord
  proof -
    from cache.warm_view [OF inv(1) that(2)] consider "cview c uid = Some ord"
      | o' where "o' \<in> set (slice_list ords)" "OrderUID o' = uid" "ord = clone_of o'" by auto
    then show ?thesis
    proof cases
      case 1
      then show ?thesis using co r1 by (simp add: coherent_def s)
    next
      case (2 o')
      then have "rel_option same (Some o') (rview r (OrderUID o'))"
        using repo.last_ok [OF inv(2), of n ords o'] last that(1) by simp
      then show ?thesis using 2 r1 same_cloned by (auto simp: option_rel_Some1)
    qed
  qed
  with co r1 show "coherent (snd (WarmUpCache svc n s))"
    unfolding run by (cases res) (auto simp: coherent_def s)
qed

lemma OrdersByCustomer_state:
  assumes "svc_inv s"
  shows "svc_inv (snd (OrdersByCustomer svc cust limit offset s))"
    and "coherent s \<Longrightarrow> coherent (snd (OrdersByCustomer svc cust limit offset s))"
    and "fst (snd (OrdersByCustomer svc cust limit offset s)) = fst s"
  using assms repo.list_inv [of "snd s" cust limit offset] repo.list_view [of "snd s" cust limit offset]
  by (auto simp: svc_inv_def coherent_def OrdersByCustomer_def parts split: prod.split)

subsection \<open>Histories\<close>

text \<open>No save of the history was reported as failed although it was carried out.\<close>

fun saves_definite :: "svc_op list \<Rightarrow> 'c \<times> 'r \<Rightarrow> bool" where
  "saves_definite [] s = True"
| "saves_definite (op # ops) s \<longleftrightarrow>
     (case op of
        Op_SaveFromMessage raw \<Rightarrow>
          fst (SaveFromMessage svc raw s) \<noteq> None \<longrightarrow>
            rview (snd (snd (SaveFromMessage svc raw s))) = rview (snd s)
      | _ \<Rightarrow> True) \<and> saves_definite ops (svc_step svc op s)"

lemma svc_run_Cons: "svc_run svc (op # ops) s = svc_run svc ops (svc_step svc op s)"
  by (simp add: svc_run_def)

lemma svc_step_inv: "svc_inv s \<Longrightarrow> svc_inv (svc_step svc op s)"
  by (cases op) (simp_all add: GetOrder_inv SaveFromMessage_inv WarmUpCache_state OrdersByCustomer_state)

lemma svc_run_inv: "svc_inv s \<Longrightarrow> svc_inv (svc_run svc ops s)"
  by (induction ops arbitrary: s) (simp_all add: svc_run_def svc_step_inv)

lemma svc_run_coherent:
  "svc_inv s \<Longrightarrow> coherent s \<Longrightarrow> saves_definite ops s \<Longrightarrow> coherent (svc_run svc ops s)"
proof (induction ops arbitrary: s)
  case (Cons op ops)
  have "coherent (svc_step svc op s)"
    using Cons.prems
    by (cases op)
      (auto simp: GetOrder_coherent WarmUpCache_state OrdersByCustomer_state intro: SaveFromMessage_coherent)
  then show ?case
    using Cons by (simp add: svc_run_Cons svc_step_inv)
qed (simp add: svc_run_def)

end

text \<open>A service over such parts reads orders as the transport expects it.\<close>

sublocale service \<subseteq> reader: order_reader svc_inv "read_service svc"
proof
  fix s :: "'c \<times> 'r" and uid cust ord ords and limit offset :: goint
  assume inv: "svc_inv s"
  obtain c r where s: "s = (c, r)" by (cases s)
  show "svc_inv (snd (rs_GetOrder (read_service svc) uid s))"
    by (simp add: read_service_def GetOrder_inv inv)
  show "OrderUID ord = uid" if "fst (rs_GetOrder (read_service svc) uid s) = Inr (Some ord)"
    using inv [unfolded s]
  proof (cases rule: GetOrder_cases [where uid = uid])
    case (hit ord' c1)
    then show ?thesis using that inv cache.view_key [of c uid ord'] by (simp add: read_service_def s svc_inv_def)
  qed (use that in \<open>simp_all add: read_service_def s\<close>)
  show "svc_inv (snd (rs_OrdersByCustomer (read_service svc) cust limit offset s))"
    by (simp add: read_service_def OrdersByCustomer_state inv)
  assume "fst (rs_OrdersByCustomer (read_service svc) cust limit offset s) = Inr ords"
  then have ords: "fst (rp_ListByCustomer rp cust limit offset r) = Inr ords"
    by (simp add: read_service_def OrdersByCustomer_def s parts split: prod.splits)
  have "rinv r" using inv by (simp add: s svc_inv_def)
  then show "ord \<in> set (slice_list ords) \<Longrightarrow> CustomerID ord = cust"
    and "0 < sint limit \<Longrightarrow> int (length (slice_list ords)) \<le> sint limit"
    using repo.list_ok [OF _ ords] repo.list_limit [OF _ ords] by blast+
qed

end
