(* ===== verification/Cache_Port.thy ===== *)
theory Cache_Port
  imports Ports Cache_Props
begin

text \<open>
  The LRU cache as an \<open>OrderCache\<close>: its operations behind the port, with the readings of the
  clock and of the context's state they consume, and the proof that they keep the contract.
\<close>

text \<open>
  The surroundings of the cache: the n-th reading of the clock, and what the context's error
  is at that moment.  The state of the port is the cache and the number of readings so far.
\<close>

record cache_env =
  ce_now :: "nat \<Rightarrow> instant"
  ce_done :: "nat \<Rightarrow> goerror option"

type_synonym cache_state = "lru_cache \<times> nat"

definition lru_port :: "cache_env \<Rightarrow> cache_state cache_port" where
  "lru_port env =
     \<lparr>cp_Get = (\<lambda>uid (c, n). let (res, c1) = LRU_Get c (ce_now env n) uid in (res, (c1, Suc n))),
      cp_Set = (\<lambda>p (c, n). let (res, c1) = LRU_Set c (ce_now env n) p in (res, (c1, Suc n))),
      cp_WarmUp = (\<lambda>ps (c, n).
        let (res, c1) = LRU_WarmUp c (\<lambda>i. ce_done env (n + i)) (\<lambda>i. ce_now env (n + i)) ps
        in (res, (c1, n + length ps)))\<rparr>"

definition cache_ok :: "cache_state \<Rightarrow> bool" where
  "cache_ok s = cache_inv (fst s)"

definition cached :: "cache_state \<Rightarrow> string \<Rightarrow> order option" where
  "cached s = stored (fst s)"

lemma lru_port_simps [port_defs]:
  "fst (cp_Get (lru_port env) uid s) = fst (LRU_Get (fst s) (ce_now env (snd s)) uid)"
  "fst (snd (cp_Get (lru_port env) uid s)) = snd (LRU_Get (fst s) (ce_now env (snd s)) uid)"
  "fst (cp_Set (lru_port env) p s) = fst (LRU_Set (fst s) (ce_now env (snd s)) p)"
  "fst (snd (cp_Set (lru_port env) p s)) = snd (LRU_Set (fst s) (ce_now env (snd s)) p)"
  "fst (snd (cp_WarmUp (lru_port env) ps s)) =
     snd (LRU_WarmUp (fst s) (\<lambda>i. ce_done env (snd s + i)) (\<lambda>i. ce_now env (snd s + i)) ps)"
  by (simp_all add: lru_port_def case_prod_beta Let_def)

lemma stored_key:
  assumes "cache_inv c" and "stored c uid = Some ord"
  shows "OrderUID ord = uid \<and> uid \<noteq> []"
proof -
  obtain x where x: "find_id uid (entries c) = Some x" "ent_order x = Some ord"
    using assms(2) by (auto simp: stored_def bind_eq_Some_conv)
  from find_id_good(1) [OF cache_inv_wf [OF assms(1)] x(1)] find_id_SomeD [OF x(1)] x(2)
  show ?thesis by (auto simp: good_entry_def split: option.splits)
qed

lemma WarmUp_from_stored:
  assumes "cache_inv c"
    and "stored (snd (LRU_WarmUp_from i ctx_done now c ps)) uid = Some ord"
  shows "stored c uid = Some ord \<or>
    (\<exists>ord'. Some ord' \<in> set ps \<and> OrderUID ord' = uid \<and> ord = clone_of ord')"
  using assms
proof (induction ps arbitrary: i c)
  case (Cons p ps)
  obtain r c1 where c1: "LRU_Set c (now i) p = (r, c1)" by (cases "LRU_Set c (now i) p")
  have inv1: "cache_inv c1" using LRU_Set_inv [OF Cons.prems(1), of "now i" p] c1 by simp
  have step: "stored c uid = Some ord \<or> (\<exists>ord'. p = Some ord' \<and> OrderUID ord' = uid \<and> ord = clone_of ord')"
    if "stored c1 uid = Some ord"
  proof (cases "p = None \<or> OrderUID (the p) = []")
    case True
    then have "c1 = c" using c1 by (cases p) (simp_all add: LRU_Set_rejects)
    then show ?thesis using that by simp
  next
    case False
    then obtain ord' where "p = Some ord'" "OrderUID ord' \<noteq> []" by auto
    with map_leD [OF stored_Set(1) [OF Cons.prems(1) this(2), of "now i"], of uid ord] that c1
    show ?thesis by (auto split: if_splits)
  qed
  show ?case
  proof (cases "ctx_done i = None \<and> r = None")
    case True
    then have "stored (snd (LRU_WarmUp_from (Suc i) ctx_done now c1 ps)) uid = Some ord"
      using Cons.prems(2) c1 by simp
    from Cons.IH [OF inv1 this] step show ?thesis by auto
  next
    case False
    then have "stored c uid = Some ord \<or> stored c1 uid = Some ord"
      using Cons.prems(2) c1 by (auto split: option.splits)
    with step show ?thesis by auto
  qed
qed simp

interpretation lru: order_cache cache_ok cached "lru_port env" for env
proof
  fix s :: cache_state and uid ord p and ps :: "order option list" and k
  show "cache_ok s \<Longrightarrow> cached s uid = Some ord \<Longrightarrow> OrderUID ord = uid \<and> uid \<noteq> []"
    by (simp add: cache_ok_def cached_def stored_key)
  show "cache_ok s \<Longrightarrow> cache_ok (snd (cp_Get (lru_port env) uid s))"
    and "cache_ok s \<Longrightarrow> cache_ok (snd (cp_Set (lru_port env) p s))"
    and "cache_ok s \<Longrightarrow> cache_ok (snd (cp_WarmUp (lru_port env) ps s))"
    by (simp_all add: cache_ok_def port_defs inv_intros)
  show "cache_ok s \<Longrightarrow> cached (snd (cp_Get (lru_port env) uid s)) \<subseteq>\<^sub>m cached s"
    by (simp add: cache_ok_def cached_def port_defs stored_Get(1))
  show "cache_ok s \<Longrightarrow> fst (cp_Get (lru_port env) uid s) = (p, True) \<Longrightarrow> p \<noteq> None \<and> cached s uid = p"
    using stored_Get(2,3) [of "fst s" "ce_now env (snd s)" uid]
    by (auto simp: cache_ok_def cached_def port_defs)
  show "cache_ok s \<Longrightarrow> fst (cp_Get (lru_port env) uid s) = (p, False) \<Longrightarrow> p = None"
    using stored_Get(3) [of "fst s" "ce_now env (snd s)" uid] by (simp add: cache_ok_def port_defs)
  show "cache_ok s \<Longrightarrow> OrderUID ord \<noteq> [] \<Longrightarrow> fst (cp_Set (lru_port env) (Some ord) s) = None"
    by (simp add: cache_ok_def port_defs LRU_Set_correct(1))
  show "cache_ok s \<Longrightarrow> OrderUID ord \<noteq> [] \<Longrightarrow>
      cached (snd (cp_Set (lru_port env) (Some ord) s)) (OrderUID ord) = Some (clone_of ord)"
    and "cache_ok s \<Longrightarrow> OrderUID ord \<noteq> [] \<Longrightarrow>
      cached (snd (cp_Set (lru_port env) (Some ord) s)) \<subseteq>\<^sub>m (cached s)(OrderUID ord \<mapsto> clone_of ord)"
    by (simp_all add: cache_ok_def cached_def port_defs stored_Set)
  show "cache_ok s \<Longrightarrow> cached (snd (cp_WarmUp (lru_port env) ps s)) uid = Some ord \<Longrightarrow>
      cached s uid = Some ord \<or> (\<exists>ord'. Some ord' \<in> set ps \<and> OrderUID ord' = uid \<and> ord = clone_of ord')"
    unfolding cache_ok_def cached_def port_defs LRU_WarmUp_def by (rule WarmUp_from_stored)
  show "p = None \<or> (\<exists>ord. p = Some ord \<and> OrderUID ord = []) \<Longrightarrow>
      fst (cp_Set (lru_port env) p s) \<noteq> None \<and> cached (snd (cp_Set (lru_port env) p s)) = cached s"
    by (cases p) (auto simp: cached_def port_defs LRU_Set_rejects)
qed

end
