(* ===== verification/Repo.thy ===== *)
theory Repo
  imports Ports "HOL-Library.Product_Lexorder" "HOL-Library.List_Lexorder" "HOL-Library.Char_ord"
begin

text \<open>
  The PostgreSQL repository (\<open>internal/repo/postgres/order_repository.go\<close>) over the schema of
  \<open>migrations/\<close>: the tables with their constraints, the SQL statements as functions on them,
  and \<open>Save\<close>, \<open>GetByUID\<close>, \<open>ListByCustomer\<close> and \<open>LastN\<close> statement by statement.

  What the server, the driver and the other sessions do is given by \<open>pg_env\<close>, indexed by the
  number of the statement: which statements fail, what other sessions have committed before,
  and in which order rows come that the query leaves unordered.  Error texts keep the prefix
  the code puts in front of the driver's error.
\<close>

section \<open>Descending order\<close>

datatype 'a desc = Desc (undesc: 'a)

instantiation desc :: (linorder) linorder
begin

definition less_eq_desc :: "'a desc \<Rightarrow> 'a desc \<Rightarrow> bool" where
  "less_eq_desc a b \<longleftrightarrow> undesc b \<le> undesc a"

definition less_desc :: "'a desc \<Rightarrow> 'a desc \<Rightarrow> bool" where
  "less_desc a b \<longleftrightarrow> undesc b < undesc a"

instance
  by standard (auto simp: less_eq_desc_def less_desc_def desc.expand)

end

section \<open>The schema\<close>

record orders_row =
  ro_uid :: string
  ro_track :: string
  ro_entry :: string
  ro_locale :: string
  ro_signature :: string
  ro_customer :: string
  ro_service :: string
  ro_shardkey :: string
  ro_sm_id :: goint
  ro_micros :: int
  ro_oof :: string

record items_row =
  ir_id :: nat
  ir_uid :: string
  ir_item :: item

text \<open>
  \<open>deliveries\<close> and \<open>payments\<close> are keyed by \<open>order_uid\<close>; the payment's \<open>transaction\<close>, the primary
  key, is a field of the payment.  The column \<open>customers.created_at\<close> is never read.
\<close>

record db =
  t_customers :: "string list"
  t_orders :: "orders_row list"
  t_deliveries :: "(string \<times> delivery) list"
  t_payments :: "(string \<times> payment) list"
  t_items :: "items_row list"
  t_items_seq :: nat

definition empty_db :: db where
  "empty_db = \<lparr>t_customers = [], t_orders = [], t_deliveries = [], t_payments = [],
     t_items = [], t_items_seq = 0\<rparr>"

text \<open>\<open>TIMESTAMPTZ\<close> counts microseconds.\<close>

definition to_micros :: "instant \<Rightarrow> int" where
  "to_micros t = t div 1000"

definition of_micros :: "int \<Rightarrow> instant" where
  "of_micros m = 1000 * m"

definition int4_ok :: "goint \<Rightarrow> bool" where
  "int4_ok x \<longleftrightarrow> - (2 ^ 31) \<le> sint x \<and> sint x < 2 ^ 31"

definition nonneg_int4 :: "goint \<Rightarrow> bool" where
  "nonneg_int4 x \<longleftrightarrow> int4_ok x \<and> 0 \<le> sint x"

section \<open>The surroundings\<close>

record pg_env =
  text_ok :: "string \<Rightarrow> bool"
  fault :: "nat \<Rightarrow> goerror option"
  row_fault :: "nat \<Rightarrow> (nat \<times> goerror) option"
  commit_lost :: "nat \<Rightarrow> bool"
  others :: "nat \<Rightarrow> db \<Rightarrow> db"
  item_rank :: "nat \<Rightarrow> nat \<Rightarrow> nat"
  order_rank :: "nat \<Rightarrow> string \<Rightarrow> nat"
  collate :: "string \<Rightarrow> string"

record pg =
  pg_db :: db
  pg_n :: nat

definition text_error :: goerror where
  "text_error = Errorf ''invalid byte sequence for encoding UTF8''"

definition range_error :: goerror where
  "range_error = Errorf ''value out of range for type int4''"

definition check_error :: goerror where
  "check_error = Errorf ''new row violates check constraint''"

definition fk_error :: goerror where
  "fk_error = Errorf ''insert or update violates foreign key constraint''"

definition unique_error :: goerror where
  "unique_error = Errorf ''duplicate key value violates unique constraint''"

section \<open>Save\<close>

text \<open>\<open>INSERT \<dots> ON CONFLICT \<dots> DO UPDATE\<close>: the conflicting row is updated, or the new one added.\<close>

definition upsert :: "('a \<Rightarrow> bool) \<Rightarrow> 'a \<Rightarrow> ('a \<Rightarrow> 'a) \<Rightarrow> 'a list \<Rightarrow> 'a list" where
  "upsert conflict new upd rows =
     (if list_ex conflict rows then map (\<lambda>r. if conflict r then upd r else r) rows
      else rows @ [new])"

definition insert_customer :: "pg_env \<Rightarrow> string \<Rightarrow> db \<Rightarrow> goerror + db" where
  "insert_customer env cust d =
     (if \<not> text_ok env cust then Inl text_error
      else Inr (d\<lparr>t_customers := upsert (\<lambda>r. r = cust) cust (\<lambda>r. r) (t_customers d)\<rparr>))"

definition order_row :: "order \<Rightarrow> orders_row" where
  "order_row ord =
     \<lparr>ro_uid = OrderUID ord, ro_track = TrackNumber ord, ro_entry = Entry ord,
      ro_locale = Locale ord, ro_signature = InternalSignature ord,
      ro_customer = CustomerID ord, ro_service = DeliveryService ord,
      ro_shardkey = ShardKey ord, ro_sm_id = SmID ord,
      ro_micros = to_micros (DateCreated ord), ro_oof = OofShard ord\<rparr>"

definition upsert_order :: "pg_env \<Rightarrow> order \<Rightarrow> db \<Rightarrow> goerror + db" where
  "upsert_order env ord d =
     (if \<not> list_all (text_ok env)
           [OrderUID ord, TrackNumber ord, Entry ord, Locale ord, InternalSignature ord,
            CustomerID ord, DeliveryService ord, ShardKey ord, OofShard ord]
      then Inl text_error
      else if \<not> int4_ok (SmID ord) then Inl range_error
      else if CustomerID ord \<notin> set (t_customers d) then Inl fk_error
      else Inr (d\<lparr>t_orders := upsert (\<lambda>r. ro_uid r = OrderUID ord) (order_row ord)
             (\<lambda>r. (order_row ord)\<lparr>ro_uid := ro_uid r\<rparr>) (t_orders d)\<rparr>))"

definition has_order :: "string \<Rightarrow> db \<Rightarrow> bool" where
  "has_order uid d \<longleftrightarrow> list_ex (\<lambda>r. ro_uid r = uid) (t_orders d)"

definition upsert_delivery :: "pg_env \<Rightarrow> string \<Rightarrow> delivery \<Rightarrow> db \<Rightarrow> goerror + db" where
  "upsert_delivery env uid del d =
     (if \<not> list_all (text_ok env)
           [uid, dName del, dPhone del, dZip del, dCity del, dAddress del, dRegion del, dEmail del]
      then Inl text_error
      else if \<not> has_order uid d then Inl fk_error
      else Inr (d\<lparr>t_deliveries := upsert (\<lambda>(u, _). u = uid) (uid, del) (\<lambda>(u, _). (u, del))
             (t_deliveries d)\<rparr>))"

text \<open>
  The conflict target is \<open>order_uid\<close>, and the update leaves \<open>transaction\<close> as it is.  Without such
  a conflict, a row that already has the new \<open>transaction\<close> violates the primary key.
\<close>

definition upsert_payment :: "pg_env \<Rightarrow> string \<Rightarrow> payment \<Rightarrow> db \<Rightarrow> goerror + db" where
  "upsert_payment env uid pay d =
     (if \<not> list_all (text_ok env)
           [pTransaction pay, uid, pRequestID pay, pCurrency pay, pProvider pay, pBank pay]
      then Inl text_error
      else if \<not> list_all int4_ok [pAmount pay, pDeliveryCost pay, pGoodsTotal pay, pCustomFee pay]
      then Inl range_error
      else if sint (pAmount pay) < 0 \<or> sint (pPaymentDT pay) < 0 \<or> sint (pDeliveryCost pay) < 0 \<or>
              sint (pGoodsTotal pay) < 0 \<or> sint (pCustomFee pay) < 0
      then Inl check_error
      else if \<not> has_order uid d then Inl fk_error
      else if \<not> list_ex (\<lambda>(u, _). u = uid) (t_payments d) \<and>
              list_ex (\<lambda>(_, q). pTransaction q = pTransaction pay) (t_payments d)
      then Inl unique_error
      else Inr (d\<lparr>t_payments := upsert (\<lambda>(u, _). u = uid) (uid, pay)
             (\<lambda>(u, q). (u, pay\<lparr>pTransaction := pTransaction q\<rparr>)) (t_payments d)\<rparr>))"

definition delete_items :: "string \<Rightarrow> db \<Rightarrow> goerror + db" where
  "delete_items uid d = Inr (d\<lparr>t_items := filter (\<lambda>r. ir_uid r \<noteq> uid) (t_items d)\<rparr>)"

definition item_texts_ok :: "pg_env \<Rightarrow> item \<Rightarrow> bool" where
  "item_texts_ok env it \<longleftrightarrow>
     list_all (text_ok env) [iTrackNumber it, iRID it, iName it, iSize it, iBrand it]"

definition item_ranges_ok :: "item \<Rightarrow> bool" where
  "item_ranges_ok it \<longleftrightarrow>
     list_all int4_ok [iChrtID it, iPrice it, iSale it, iTotalPrice it, iNmID it, iStatus it]"

definition item_checks_ok :: "item \<Rightarrow> bool" where
  "item_checks_ok it \<longleftrightarrow>
     0 \<le> sint (iPrice it) \<and> 0 \<le> sint (iSale it) \<and> 0 \<le> sint (iTotalPrice it)"

fun number_rows :: "nat \<Rightarrow> string \<Rightarrow> item list \<Rightarrow> items_row list" where
  "number_rows k uid [] = []"
| "number_rows k uid (it # its) = \<lparr>ir_id = k, ir_uid = uid, ir_item = it\<rparr> # number_rows (Suc k) uid its"

definition copyItems :: "pg_env \<Rightarrow> string \<Rightarrow> item list \<Rightarrow> db \<Rightarrow> goerror + db" where
  "copyItems env uid its d =
     (if \<not> list_all (item_texts_ok env) its then Inl text_error
      else if \<not> list_all item_ranges_ok its then Inl range_error
      else if \<not> list_all item_checks_ok its then Inl check_error
      else if \<not> has_order uid d then Inl fk_error
      else Inr (d\<lparr>t_items := t_items d @ number_rows (t_items_seq d) uid its,
                  t_items_seq := t_items_seq d + length its\<rparr>))"

text \<open>The statements of the transaction, each with the prefix of its error.\<close>

type_synonym step = "string \<times> (db \<Rightarrow> goerror + db)"

definition save_steps :: "pg_env \<Rightarrow> order \<Rightarrow> step list" where
  "save_steps env ord =
     [(''insert customer'', insert_customer env (CustomerID ord)),
      (''upsert order'', upsert_order env ord),
      (''upsert delivery'', upsert_delivery env (OrderUID ord) (Delivery ord)),
      (''upsert payment'', upsert_payment env (OrderUID ord) (Payment ord)),
      (''delete items'', delete_items (OrderUID ord))] @
     (if 0 < length (item_list ord)
      then [(''copy items'', copyItems env (OrderUID ord) (item_list ord))] else [])"

fun run_tx :: "pg_env \<Rightarrow> nat \<Rightarrow> step list \<Rightarrow> db \<Rightarrow> (goerror + db) \<times> nat" where
  "run_tx env n [] d = (Inr d, n)"
| "run_tx env n ((label, f) # steps) d =
     (case fault env n of
        Some err \<Rightarrow> (Inl (Wrapf label err), Suc n)
      | None \<Rightarrow>
          (case f d of
             Inl err \<Rightarrow> (Inl (Wrapf label err), Suc n)
           | Inr d1 \<Rightarrow> run_tx env (Suc n) steps d1))"

text \<open>
  What other sessions commit is seen when the transaction begins; its first statements lock
  the rows it writes until it ends.  A failed statement ends the function, and the deferred
  rollback leaves the database as it was.  When the commit reports an error, it may have been
  carried out all the same.
\<close>

definition Save :: "pg_env \<Rightarrow> order option \<Rightarrow> pg \<Rightarrow> goerror option \<times> pg" where
  "Save env p s =
     (case p of
        None \<Rightarrow> (Some (Errorf ''order is empty or order_uid is required''), s)
      | Some ord \<Rightarrow>
          if OrderUID ord = [] then (Some (Errorf ''order is empty or order_uid is required''), s)
          else if CustomerID ord = [] then (Some (Errorf ''customer_id is required''), s)
          else
            (let n = pg_n s; d0 = others env n (pg_db s) in
             case fault env n of
               Some err \<Rightarrow> (Some err, \<lparr>pg_db = d0, pg_n = Suc n\<rparr>)
             | None \<Rightarrow>
                 (case run_tx env (Suc n) (save_steps env ord) d0 of
                    (Inl err, m) \<Rightarrow> (Some err, \<lparr>pg_db = d0, pg_n = m\<rparr>)
                  | (Inr d1, m) \<Rightarrow>
                      (case fault env m of
                         Some err \<Rightarrow>
                           (Some (Wrapf ''commit'' err),
                            \<lparr>pg_db = (if commit_lost env m then d1 else d0), pg_n = Suc m\<rparr>)
                       | None \<Rightarrow> (None, \<lparr>pg_db = d1, pg_n = Suc m\<rparr>)))))"

section \<open>Queries\<close>

text \<open>One statement outside a transaction, with its text parameters.\<close>

definition select :: "pg_env \<Rightarrow> string \<Rightarrow> string list \<Rightarrow> (db \<Rightarrow> 'a) \<Rightarrow> pg \<Rightarrow> (goerror + 'a) \<times> pg" where
  "select env label texts f s =
     (let n = pg_n s; d = others env n (pg_db s); s1 = \<lparr>pg_db = d, pg_n = Suc n\<rparr> in
      case fault env n of
        Some err \<Rightarrow> (Inl (Wrapf label err), s1)
      | None \<Rightarrow>
          if \<not> list_all (text_ok env) texts then (Inl (Wrapf label text_error), s1)
          else (Inr (f d), s1))"

text \<open>The rows that \<open>rows.Next\<close> delivers, and what \<open>rows.Err\<close> answers afterwards.\<close>

definition delivered :: "pg_env \<Rightarrow> nat \<Rightarrow> 'a list \<Rightarrow> 'a list \<times> goerror option" where
  "delivered env n rows =
     (case row_fault env n of
        Some (k, err) \<Rightarrow> (take k rows, Some err)
      | None \<Rightarrow> (rows, None))"

definition base_order :: "orders_row \<Rightarrow> order" where
  "base_order r = zero_order\<lparr>OrderUID := ro_uid r, TrackNumber := ro_track r, Entry := ro_entry r,
     Locale := ro_locale r, InternalSignature := ro_signature r, CustomerID := ro_customer r,
     DeliveryService := ro_service r, ShardKey := ro_shardkey r, SmID := ro_sm_id r,
     DateCreated := of_micros (ro_micros r), OofShard := ro_oof r\<rparr>"

text \<open>A query without \<open>ORDER BY\<close> returns its rows in any order.\<close>

definition items_of :: "pg_env \<Rightarrow> nat \<Rightarrow> string \<Rightarrow> db \<Rightarrow> item list" where
  "items_of env n uid d =
     map ir_item (sort_key (\<lambda>r. item_rank env n (ir_id r)) (filter (\<lambda>r. ir_uid r = uid) (t_items d)))"

definition with_parts :: "delivery option \<Rightarrow> payment option \<Rightarrow> item slice \<Rightarrow> order \<Rightarrow> order" where
  "with_parts del pay its ord = ord\<lparr>
     Delivery := (case del of None \<Rightarrow> Delivery ord | Some x \<Rightarrow> x),
     Payment := (case pay of None \<Rightarrow> Payment ord | Some x \<Rightarrow> x),
     Items := its\<rparr>"

definition GetByUID :: "pg_env \<Rightarrow> string \<Rightarrow> pg \<Rightarrow> (goerror + order option) \<times> pg" where
  "GetByUID env uid s =
     (case select env ''select order'' [uid] (\<lambda>d. find (\<lambda>r. ro_uid r = uid) (t_orders d)) s of
        (Inl err, s1) \<Rightarrow> (Inl err, s1)
      | (Inr None, s1) \<Rightarrow> (Inr None, s1)
      | (Inr (Some row), s1) \<Rightarrow>
          (case select env ''select delivery'' [uid] (\<lambda>d. map_of (t_deliveries d) uid) s1 of
             (Inl err, s2) \<Rightarrow> (Inl err, s2)
           | (Inr del, s2) \<Rightarrow>
               (case select env ''select payment'' [uid] (\<lambda>d. map_of (t_payments d) uid) s2 of
                  (Inl err, s3) \<Rightarrow> (Inl err, s3)
                | (Inr pay, s3) \<Rightarrow>
                    (case select env ''select items'' [uid] (items_of env (pg_n s3) uid) s3 of
                       (Inl err, s4) \<Rightarrow> (Inl err, s4)
                     | (Inr rows, s4) \<Rightarrow>
                         (case delivered env (pg_n s3) rows of
                            (its, Some err) \<Rightarrow> (Inl (Wrapf ''items rows'' err), s4)
                          | (its, None) \<Rightarrow>
                              (Inr (Some (with_parts del pay (append_nil its) (base_order row))), s4))))))"

subsection \<open>Pages of a customer\<close>

text \<open>\<open>ORDER BY date_created DESC, order_uid DESC LIMIT \<dots> OFFSET \<dots>\<close>\<close>

definition customer_page :: "pg_env \<Rightarrow> nat \<Rightarrow> string \<Rightarrow> nat \<Rightarrow> nat \<Rightarrow> db \<Rightarrow> orders_row list" where
  "customer_page env n cust limit offset d =
     take limit (drop offset
       (sort_key (\<lambda>r. (Desc (ro_micros r), Desc (collate env (ro_uid r))))
         (sort_key (\<lambda>r. order_rank env n (ro_uid r))
           (filter (\<lambda>r. ro_customer r = cust) (t_orders d)))))"

text \<open>The map \<open>byUID\<close> holds pointers to the orders of the page; the loops write through it.\<close>

definition at_uid :: "string \<Rightarrow> (order \<Rightarrow> order) \<Rightarrow> order list \<Rightarrow> order list" where
  "at_uid uid f ords = map (\<lambda>ord. if OrderUID ord = uid then f ord else ord) ords"

definition add_payments :: "(string \<times> payment) list \<Rightarrow> order list \<Rightarrow> order list" where
  "add_payments rows ords = fold (\<lambda>(uid, pay). at_uid uid (\<lambda>ord. ord\<lparr>Payment := pay\<rparr>)) rows ords"

definition add_deliveries :: "(string \<times> delivery) list \<Rightarrow> order list \<Rightarrow> order list" where
  "add_deliveries rows ords = fold (\<lambda>(uid, del). at_uid uid (\<lambda>ord. ord\<lparr>Delivery := del\<rparr>)) rows ords"

text \<open>\<open>itemsByUID\<close>, as a function of the rows; an order without items keeps its \<open>nil\<close> slice.\<close>

definition items_by_uid :: "items_row list \<Rightarrow> string \<Rightarrow> item list" where
  "items_by_uid rows uid = map ir_item (filter (\<lambda>r. ir_uid r = uid) rows)"

definition add_items :: "items_row list \<Rightarrow> order list \<Rightarrow> order list" where
  "add_items rows ords =
     map (\<lambda>ord. let its = items_by_uid rows (OrderUID ord)
                in if 0 < length its then ord\<lparr>Items := Some its\<rparr> else ord) ords"

definition page_items :: "pg_env \<Rightarrow> nat \<Rightarrow> string list \<Rightarrow> db \<Rightarrow> items_row list" where
  "page_items env n uids d =
     sort_key (\<lambda>r. (collate env (ir_uid r), sint (iChrtID (ir_item r))))
       (sort_key (\<lambda>r. item_rank env n (ir_id r)) (filter (\<lambda>r. ir_uid r \<in> set uids) (t_items d)))"

definition page_part :: "string list \<Rightarrow> (string \<times> 'a) list \<Rightarrow> (string \<times> 'a) list" where
  "page_part uids rows = filter (\<lambda>(uid, _). uid \<in> set uids) rows"

definition ListByCustomer ::
    "pg_env \<Rightarrow> string \<Rightarrow> goint \<Rightarrow> goint \<Rightarrow> pg \<Rightarrow> (goerror + order slice) \<times> pg" where
  "ListByCustomer env customerID limit0 offset0 s =
     (let limit = (if sint limit0 \<le> 0 then 20 else limit0);
          offset = (if sint offset0 < 0 then 0 else offset0) in
      case select env ''select customer orders'' [customerID]
             (customer_page env (pg_n s) customerID (nat (sint limit)) (nat (sint offset))) s of
        (Inl err, s1) \<Rightarrow> (Inl err, s1)
      | (Inr rows, s1) \<Rightarrow>
          (case delivered env (pg_n s) rows of
             (_, Some err) \<Rightarrow> (Inl (Wrapf ''orders rows'' err), s1)
           | (rows, None) \<Rightarrow>
               (let orders = map base_order rows; uids = map ro_uid rows in
                if orders = [] then (Inr (Some []), s1)
                else
                  (case select env ''select payments'' uids (\<lambda>d. page_part uids (t_payments d)) s1 of
                     (Inl err, s2) \<Rightarrow> (Inl err, s2)
                   | (Inr rows, s2) \<Rightarrow>
                  (case delivered env (pg_n s1) rows of
                     (_, Some err) \<Rightarrow> (Inl (Wrapf ''payments rows'' err), s2)
                   | (pays, None) \<Rightarrow>
                  (case select env ''select deliveries'' uids (\<lambda>d. page_part uids (t_deliveries d)) s2 of
                     (Inl err, s3) \<Rightarrow> (Inl err, s3)
                   | (Inr rows, s3) \<Rightarrow>
                  (case delivered env (pg_n s2) rows of
                     (_, Some err) \<Rightarrow> (Inl (Wrapf ''deliveries rows'' err), s3)
                   | (dels, None) \<Rightarrow>
                  (case select env ''select items'' uids (page_items env (pg_n s3) uids) s3 of
                     (Inl err, s4) \<Rightarrow> (Inl err, s4)
                   | (Inr rows, s4) \<Rightarrow>
                  (case delivered env (pg_n s3) rows of
                     (_, Some err) \<Rightarrow> (Inl (Wrapf ''items rows'' err), s4)
                   | (its, None) \<Rightarrow>
                       (Inr (Some (add_items its (add_deliveries dels (add_payments pays orders)))),
                        s4))))))))))"

subsection \<open>The last orders\<close>

definition last_uids :: "pg_env \<Rightarrow> nat \<Rightarrow> nat \<Rightarrow> db \<Rightarrow> string list" where
  "last_uids env n limit d =
     map ro_uid (take limit (sort_key (\<lambda>r. Desc (ro_micros r))
       (sort_key (\<lambda>r. order_rank env n (ro_uid r)) (t_orders d))))"

fun fetch_orders ::
    "pg_env \<Rightarrow> string list \<Rightarrow> order list \<Rightarrow> pg \<Rightarrow> (goerror + order list) \<times> pg" where
  "fetch_orders env [] result s = (Inr result, s)"
| "fetch_orders env (uid # uids) result s =
     (case GetByUID env uid s of
        (Inl err, s1) \<Rightarrow> (Inl err, s1)
      | (Inr None, s1) \<Rightarrow> fetch_orders env uids result s1
      | (Inr (Some ord), s1) \<Rightarrow> fetch_orders env uids (result @ [ord]) s1)"

definition LastN :: "pg_env \<Rightarrow> goint \<Rightarrow> pg \<Rightarrow> (goerror + order slice) \<times> pg" where
  "LastN env n s =
     (if sint n \<le> 0 then (Inr None, s)
      else
        (case select env ''select last uids'' [] (last_uids env (pg_n s) (nat (sint n))) s of
           (Inl err, s1) \<Rightarrow> (Inl err, s1)
         | (Inr rows, s1) \<Rightarrow>
             (case delivered env (pg_n s) rows of
                (uids, rows_err) \<Rightarrow>
                  (case fetch_orders env uids [] s1 of
                     (Inl err, s2) \<Rightarrow> (Inl err, s2)
                   | (Inr result, s2) \<Rightarrow>
                       (case rows_err of
                          Some err \<Rightarrow> (Inl (Wrapf ''last rows'' err), s2)
                        | None \<Rightarrow> (Inr (append_nil result), s2))))))"

section \<open>The repository behind its port\<close>

definition pg_port :: "pg_env \<Rightarrow> pg repo_port" where
  "pg_port env = \<lparr>rp_Save = Save env, rp_GetByUID = GetByUID env,
     rp_ListByCustomer = ListByCustomer env, rp_LastN = LastN env\<rparr>"

end
