(* ===== verification/Repo_Inv.thy ===== *)
theory Repo_Inv
  imports Repo
begin

text \<open>
  The effect of a whole \<open>Save\<close> as one function on the tables, the condition under which the
  schema admits it, the invariant of the tables, and the order that the tables hold for a UID.
\<close>

section \<open>Upserts\<close>

lemma map_of_upsert:
  "map_of (upsert (\<lambda>(u, _). u = k) (k, v) (\<lambda>(u, q). (u, g q)) rows) =
    (map_of rows)(k \<mapsto> (case map_of rows k of None \<Rightarrow> v | Some q \<Rightarrow> g q))"
proof (cases "list_ex (\<lambda>(u, _). u = k) rows")
  case True
  then have "k \<in> fst ` set rows" by (force simp: list_ex_iff)
  then obtain q where "map_of rows k = Some q" by (metis map_of_eq_None_iff not_None_eq)
  moreover have "map_of (map (\<lambda>r. if (case r of (u, _) \<Rightarrow> u = k) then (case r of (u, q) \<Rightarrow> (u, g q)) else r) rows) j =
      (if j = k then map_option g (map_of rows k) else map_of rows j)" for j
    by (induction rows) auto
  ultimately show ?thesis using True by (auto simp: upsert_def)
next
  case False
  then have "map_of rows k = None" by (force simp: list_ex_iff map_of_eq_None_iff)
  with False show ?thesis by (auto simp: upsert_def map_add_def split: option.split)
qed

lemma keys_upsert:
  assumes "key new = k" and "\<And>r. key r = k \<Longrightarrow> key (upd r) = k"
  shows "map key (upsert (\<lambda>r. key r = k) new upd rows) =
    (if k \<in> key ` set rows then map key rows else map key rows @ [k])"
  using assms by (auto simp: upsert_def list_ex_iff intro: rev_image_eqI)

lemma keys_upsert_pair:
  "map fst (upsert (\<lambda>(u, _). u = k) (k, v) (\<lambda>(u, q). (u, g q)) rows) =
    (if k \<in> fst ` set rows then map fst rows else map fst rows @ [k])"
  by (auto simp: upsert_def list_ex_iff split: prod.splits) force+

lemma find_upsert:
  assumes "key new = k" and "\<And>r. key r = k \<Longrightarrow> key (upd r) = k"
  shows "find (\<lambda>r. key r = j) (upsert (\<lambda>r. key r = k) new upd rows) =
    (if j = k then Some (case find (\<lambda>r. key r = k) rows of None \<Rightarrow> new | Some r \<Rightarrow> upd r)
     else find (\<lambda>r. key r = j) rows)"
proof (cases "list_ex (\<lambda>r. key r = k) rows")
  case True
  then obtain r where "find (\<lambda>r. key r = k) rows = Some r"
    by (metis find_None_iff list_ex_iff not_None_eq)
  moreover have "find (\<lambda>r. key r = j) (map (\<lambda>r. if key r = k then upd r else r) rows) =
      (if j = k then map_option upd (find (\<lambda>r. key r = k) rows) else find (\<lambda>r. key r = j) rows)"
    using assms by (induction rows) auto
  ultimately show ?thesis using True by (simp add: upsert_def)
next
  case False
  then have "find (\<lambda>r. key r = k) rows = None" by (simp add: find_None_iff list_ex_iff)
  moreover have "find P (rows @ [new]) = (case find P rows of None \<Rightarrow> if P new then Some new else None | Some r \<Rightarrow> Some r)" for P
    by (induction rows) auto
  ultimately show ?thesis using False assms(1) by (auto simp: upsert_def split: option.split)
qed

lemma set_upsert: "set (upsert P new upd rows) \<subseteq> insert new (upd ` {r \<in> set rows. P r} \<union> {r \<in> set rows. \<not> P r})"
  by (auto simp: upsert_def list_ex_iff)

section \<open>The whole update\<close>

text \<open>What the schema demands of an order, given what is stored already.\<close>

definition texts_ok :: "pg_env \<Rightarrow> order \<Rightarrow> bool" where
  "texts_ok env ord \<longleftrightarrow>
     list_all (text_ok env)
       [OrderUID ord, TrackNumber ord, Entry ord, Locale ord, InternalSignature ord,
        CustomerID ord, DeliveryService ord, ShardKey ord, OofShard ord] \<and>
     (let del = Delivery ord in list_all (text_ok env)
       [dName del, dPhone del, dZip del, dCity del, dAddress del, dRegion del, dEmail del]) \<and>
     (let pay = Payment ord in list_all (text_ok env)
       [pTransaction pay, pRequestID pay, pCurrency pay, pProvider pay, pBank pay]) \<and>
     list_all (item_texts_ok env) (item_list ord)"

definition ranges_ok :: "order \<Rightarrow> bool" where
  "ranges_ok ord \<longleftrightarrow>
     int4_ok (SmID ord) \<and>
     (let pay = Payment ord in
        nonneg_int4 (pAmount pay) \<and> 0 \<le> sint (pPaymentDT pay) \<and> nonneg_int4 (pDeliveryCost pay) \<and>
        nonneg_int4 (pGoodsTotal pay) \<and> nonneg_int4 (pCustomFee pay)) \<and>
     list_all (\<lambda>it. item_ranges_ok it \<and> item_checks_ok it) (item_list ord)"

text \<open>The payment's transaction is not that of another order, unless this order has a payment.\<close>

definition transaction_free :: "order \<Rightarrow> db \<Rightarrow> bool" where
  "transaction_free ord d \<longleftrightarrow>
     list_ex (\<lambda>(u, _). u = OrderUID ord) (t_payments d) \<or>
     \<not> list_ex (\<lambda>(_, q). pTransaction q = pTransaction (Payment ord)) (t_payments d)"

definition admissible :: "pg_env \<Rightarrow> order \<Rightarrow> db \<Rightarrow> bool" where
  "admissible env ord d \<longleftrightarrow> texts_ok env ord \<and> ranges_ok ord \<and> transaction_free ord d"

definition savable :: "pg_env \<Rightarrow> order \<Rightarrow> db \<Rightarrow> bool" where
  "savable env ord d \<longleftrightarrow> OrderUID ord \<noteq> [] \<and> CustomerID ord \<noteq> [] \<and> admissible env ord d"

definition save_db :: "order \<Rightarrow> db \<Rightarrow> db" where
  "save_db ord d =
     (let uid = OrderUID ord; kept = filter (\<lambda>r. ir_uid r \<noteq> uid) (t_items d); its = item_list ord in
      \<lparr>t_customers = upsert (\<lambda>r. r = CustomerID ord) (CustomerID ord) (\<lambda>r. r) (t_customers d),
       t_orders = upsert (\<lambda>r. ro_uid r = uid) (order_row ord)
         (\<lambda>r. (order_row ord)\<lparr>ro_uid := ro_uid r\<rparr>) (t_orders d),
       t_deliveries = upsert (\<lambda>(u, _). u = uid) (uid, Delivery ord) (\<lambda>(u, _). (u, Delivery ord))
         (t_deliveries d),
       t_payments = upsert (\<lambda>(u, _). u = uid) (uid, Payment ord)
         (\<lambda>(u, q). (u, (Payment ord)\<lparr>pTransaction := pTransaction q\<rparr>)) (t_payments d),
       t_items = kept @ number_rows (t_items_seq d) uid its,
       t_items_seq = t_items_seq d + length its\<rparr>)"

lemma ro_uid_order_row [simp]: "ro_uid (order_row ord) = OrderUID ord"
  by (simp add: order_row_def)

lemma in_upsert_new: "new \<in> set (upsert (\<lambda>r. r = new) new (\<lambda>r. r) rows)"
  by (auto simp: upsert_def list_ex_iff)

lemma has_order_frame [simp]:
  "has_order uid (d\<lparr>t_customers := x1\<rparr>) = has_order uid d"
  "has_order uid (d\<lparr>t_deliveries := x2\<rparr>) = has_order uid d"
  "has_order uid (d\<lparr>t_payments := x3\<rparr>) = has_order uid d"
  "has_order uid (d\<lparr>t_items := x4\<rparr>) = has_order uid d"
  by (simp_all add: has_order_def)

text \<open>Each statement, when it succeeds, and when it does.\<close>

lemma insert_customer_Inr:
  "insert_customer env cust d = Inr d1 \<longleftrightarrow> text_ok env cust \<and>
    d1 = d\<lparr>t_customers := upsert (\<lambda>r. r = cust) cust (\<lambda>r. r) (t_customers d)\<rparr>"
  by (auto simp: insert_customer_def)

lemma upsert_order_Inr:
  "upsert_order env ord d = Inr d1 \<longleftrightarrow>
    list_all (text_ok env)
      [OrderUID ord, TrackNumber ord, Entry ord, Locale ord, InternalSignature ord,
       CustomerID ord, DeliveryService ord, ShardKey ord, OofShard ord] \<and>
    int4_ok (SmID ord) \<and> CustomerID ord \<in> set (t_customers d) \<and>
    d1 = d\<lparr>t_orders := upsert (\<lambda>r. ro_uid r = OrderUID ord) (order_row ord)
      (\<lambda>r. (order_row ord)\<lparr>ro_uid := ro_uid r\<rparr>) (t_orders d)\<rparr>"
  by (auto simp: upsert_order_def split: if_splits)

lemma upsert_delivery_Inr:
  "upsert_delivery env uid del d = Inr d1 \<longleftrightarrow>
    list_all (text_ok env)
      [uid, dName del, dPhone del, dZip del, dCity del, dAddress del, dRegion del, dEmail del] \<and>
    has_order uid d \<and>
    d1 = d\<lparr>t_deliveries := upsert (\<lambda>(u, _). u = uid) (uid, del) (\<lambda>(u, _). (u, del)) (t_deliveries d)\<rparr>"
  by (auto simp: upsert_delivery_def split: if_splits)

lemma upsert_payment_Inr:
  "upsert_payment env uid pay d = Inr d1 \<longleftrightarrow>
    list_all (text_ok env) [pTransaction pay, uid, pRequestID pay, pCurrency pay, pProvider pay, pBank pay] \<and>
    nonneg_int4 (pAmount pay) \<and> 0 \<le> sint (pPaymentDT pay) \<and> nonneg_int4 (pDeliveryCost pay) \<and>
    nonneg_int4 (pGoodsTotal pay) \<and> nonneg_int4 (pCustomFee pay) \<and> has_order uid d \<and>
    (list_ex (\<lambda>(u, _). u = uid) (t_payments d) \<or>
     \<not> list_ex (\<lambda>(_, q). pTransaction q = pTransaction pay) (t_payments d)) \<and>
    d1 = d\<lparr>t_payments := upsert (\<lambda>(u, _). u = uid) (uid, pay)
      (\<lambda>(u, q). (u, pay\<lparr>pTransaction := pTransaction q\<rparr>)) (t_payments d)\<rparr>"
proof -
  have "list_all int4_ok [pAmount pay, pDeliveryCost pay, pGoodsTotal pay, pCustomFee pay] \<and>
      \<not> (sint (pAmount pay) < 0 \<or> sint (pPaymentDT pay) < 0 \<or> sint (pDeliveryCost pay) < 0 \<or>
         sint (pGoodsTotal pay) < 0 \<or> sint (pCustomFee pay) < 0) \<longleftrightarrow>
    nonneg_int4 (pAmount pay) \<and> 0 \<le> sint (pPaymentDT pay) \<and> nonneg_int4 (pDeliveryCost pay) \<and>
    nonneg_int4 (pGoodsTotal pay) \<and> nonneg_int4 (pCustomFee pay)"
    by (simp add: nonneg_int4_def) linarith
  note checks = this
  have branches: "(if \<not> a then Inl e1 else if \<not> b then Inl e2 else if c then Inl e3 else if \<not> h then Inl e4
       else if \<not> t \<and> u then Inl e5 else Inr x) = Inr y \<longleftrightarrow> a \<and> (b \<and> \<not> c) \<and> h \<and> (t \<or> \<not> u) \<and> y = x"
    for a b c h t u and e1 e2 e3 e4 e5 :: goerror and x y :: db
    by auto
  show ?thesis
    unfolding upsert_payment_def branches checks by (simp only: conj_assoc)
qed

lemma copyItems_Inr:
  "copyItems env uid its d = Inr d1 \<longleftrightarrow>
    list_all (item_texts_ok env) its \<and> list_all (\<lambda>it. item_ranges_ok it \<and> item_checks_ok it) its \<and>
    has_order uid d \<and>
    d1 = d\<lparr>t_items := t_items d @ number_rows (t_items_seq d) uid its,
           t_items_seq := t_items_seq d + length its\<rparr>"
  by (auto simp: copyItems_def list_all_iff)

lemmas statement_results =
  insert_customer_Inr upsert_order_Inr upsert_delivery_Inr upsert_payment_Inr copyItems_Inr

subsection \<open>The transaction\<close>

lemma run_tx_Cons_Inr:
  "run_tx env n ((label, f) # steps) d = (Inr d2, m) \<longleftrightarrow>
    fault env n = None \<and> (\<exists>d1. f d = Inr d1 \<and> run_tx env (Suc n) steps d1 = (Inr d2, m))"
  by (auto split: option.split sum.split)

lemma run_tx_append_Inr:
  "run_tx env n (xs @ ys) d = (Inr d2, m) \<longleftrightarrow>
    (\<exists>d1 k. run_tx env n xs d = (Inr d1, k) \<and> run_tx env k ys d1 = (Inr d2, m))"
proof (induction xs arbitrary: n d)
  case (Cons x xs)
  then show ?case
    by (cases x) (simp only: append_Cons run_tx_Cons_Inr, blast)
qed simp

definition no_faults :: "pg_env \<Rightarrow> nat \<Rightarrow> nat \<Rightarrow> bool" where
  "no_faults env n m \<longleftrightarrow> (\<forall>k. n \<le> k \<and> k < m \<longrightarrow> fault env k = None)"

lemma no_faults_Suc: "no_faults env n m \<longleftrightarrow> m \<le> n \<or> fault env n = None \<and> no_faults env (Suc n) m"
proof (cases "m \<le> n")
  case True
  then show ?thesis by (auto simp: no_faults_def)
next
  case False
  have "fault env k = None"
    if "fault env n = None" "\<forall>k. Suc n \<le> k \<and> k < m \<longrightarrow> fault env k = None" "n \<le> k" "k < m" for k
    using that by (cases "k = n") simp_all
  with False show ?thesis by (auto simp: no_faults_def)
qed

definition save_header :: "order \<Rightarrow> db \<Rightarrow> db" where
  "save_header ord d =
     (let uid = OrderUID ord in d\<lparr>
       t_customers := upsert (\<lambda>r. r = CustomerID ord) (CustomerID ord) (\<lambda>r. r) (t_customers d),
       t_orders := upsert (\<lambda>r. ro_uid r = uid) (order_row ord)
         (\<lambda>r. (order_row ord)\<lparr>ro_uid := ro_uid r\<rparr>) (t_orders d),
       t_deliveries := upsert (\<lambda>(u, _). u = uid) (uid, Delivery ord) (\<lambda>(u, _). (u, Delivery ord))
         (t_deliveries d),
       t_payments := upsert (\<lambda>(u, _). u = uid) (uid, Payment ord)
         (\<lambda>(u, q). (u, (Payment ord)\<lparr>pTransaction := pTransaction q\<rparr>)) (t_payments d),
       t_items := filter (\<lambda>r. ir_uid r \<noteq> uid) (t_items d)\<rparr>)"

lemma has_order_keys: "has_order uid d \<longleftrightarrow> uid \<in> set (map ro_uid (t_orders d))"
  by (auto simp: has_order_def list_ex_iff)

lemma keys_upsert_order:
  "map ro_uid (upsert (\<lambda>r. ro_uid r = OrderUID ord) (order_row ord)
     (\<lambda>r. (order_row ord)\<lparr>ro_uid := ro_uid r\<rparr>) rows) =
   (if OrderUID ord \<in> ro_uid ` set rows then map ro_uid rows else map ro_uid rows @ [OrderUID ord])"
  by (rule keys_upsert) simp_all

lemma has_order_upserted:
  "has_order (OrderUID ord) (d\<lparr>t_orders := upsert (\<lambda>r. ro_uid r = OrderUID ord) (order_row ord)
      (\<lambda>r. (order_row ord)\<lparr>ro_uid := ro_uid r\<rparr>) (t_orders d)\<rparr>)"
  unfolding has_order_keys by (simp add: keys_upsert_order)

lemma has_order_save_header: "has_order (OrderUID ord) (save_header ord d)"
  unfolding has_order_keys by (simp add: save_header_def Let_def keys_upsert_order)

lemma no_faults_5:
  "no_faults env n (n + 5) \<longleftrightarrow> fault env n = None \<and> fault env (Suc n) = None \<and>
    fault env (Suc (Suc n)) = None \<and> fault env (Suc (Suc (Suc n))) = None \<and>
    fault env (Suc (Suc (Suc (Suc n)))) = None"
proof -
  have "no_faults env (n + 5) (n + 5)" by (auto simp: no_faults_def)
  then show ?thesis
    using no_faults_Suc [of env n "n + 5"] no_faults_Suc [of env "Suc n" "n + 5"]
      no_faults_Suc [of env "Suc (Suc n)" "n + 5"] no_faults_Suc [of env "Suc (Suc (Suc n))" "n + 5"]
      no_faults_Suc [of env "Suc (Suc (Suc (Suc n)))" "n + 5"]
    by (simp add: numeral_eq_Suc)
qed

lemma no_faults_last: "n \<le> m \<Longrightarrow> no_faults env n (Suc m) \<longleftrightarrow> no_faults env n m \<and> fault env m = None"
  by (auto simp: no_faults_def less_Suc_eq)

lemma run_tx_header:
  "run_tx env n
      [(''insert customer'', insert_customer env (CustomerID ord)),
       (''upsert order'', upsert_order env ord),
       (''upsert delivery'', upsert_delivery env (OrderUID ord) (Delivery ord)),
       (''upsert payment'', upsert_payment env (OrderUID ord) (Payment ord)),
       (''delete items'', delete_items (OrderUID ord))] d = (Inr d1, m) \<longleftrightarrow>
    no_faults env n (n + 5) \<and> admissible env (ord\<lparr>Items := None\<rparr>) d \<and> d1 = save_header ord d \<and> m = n + 5"
  by (simp add: run_tx_Cons_Inr statement_results delete_items_def in_upsert_new has_order_upserted
      no_faults_5 admissible_def texts_ok_def ranges_ok_def transaction_free_def save_header_def Let_def
      del: run_tx.simps(2))
    (rule iffI; elim conjE; intro conjI; simp)

lemma save_db_header:
  "(save_header ord d)\<lparr>t_items := t_items (save_header ord d) @
      number_rows (t_items_seq (save_header ord d)) (OrderUID ord) (item_list ord),
     t_items_seq := t_items_seq (save_header ord d) + length (item_list ord)\<rparr> = save_db ord d"
  by (simp add: save_header_def save_db_def Let_def)

lemma admissible_items:
  "admissible env ord d \<longleftrightarrow> admissible env (ord\<lparr>Items := None\<rparr>) d \<and>
    list_all (item_texts_ok env) (item_list ord) \<and>
    list_all (\<lambda>it. item_ranges_ok it \<and> item_checks_ok it) (item_list ord)"
  by (auto simp: admissible_def texts_ok_def ranges_ok_def transaction_free_def Let_def)

lemma run_tx_save:
  "run_tx env n (save_steps env ord) d = (Inr d1, m) \<longleftrightarrow>
    no_faults env n (n + length (save_steps env ord)) \<and> admissible env ord d \<and> d1 = save_db ord d \<and>
    m = n + length (save_steps env ord)"
proof (cases "item_list ord = []")
  case True
  then have "save_header ord d = save_db ord d" using save_db_header [of ord d] by simp
  with True show ?thesis
    using run_tx_header [of env n ord d d1 m] admissible_items [of env ord d]
    by (simp add: save_steps_def numeral_eq_Suc del: run_tx.simps(2))
next
  case False
  have len: "n + length (save_steps env ord) = Suc (n + 5)"
    using False by (simp add: save_steps_def)
  have "run_tx env n (save_steps env ord) d = (Inr d1, m) \<longleftrightarrow>
      no_faults env n (n + 5) \<and> admissible env (ord\<lparr>Items := None\<rparr>) d \<and>
      run_tx env (n + 5) [(''copy items'', copyItems env (OrderUID ord) (item_list ord))]
        (save_header ord d) = (Inr d1, m)"
    using False
    by (simp only: save_steps_def length_greater_0_conv if_True not_False_eq_True
        run_tx_append_Inr run_tx_header) auto
  also have "run_tx env (n + 5) [(''copy items'', copyItems env (OrderUID ord) (item_list ord))]
        (save_header ord d) = (Inr d1, m) \<longleftrightarrow>
      fault env (n + 5) = None \<and> list_all (item_texts_ok env) (item_list ord) \<and>
      list_all (\<lambda>it. item_ranges_ok it \<and> item_checks_ok it) (item_list ord) \<and>
      d1 = save_db ord d \<and> m = Suc (n + 5)"
    by (auto simp: run_tx_Cons_Inr copyItems_Inr has_order_save_header save_db_header
        simp del: run_tx.simps(2))
  finally show ?thesis
    unfolding len no_faults_last [OF le_add1 [of n 5]] admissible_items [of env ord d] by blast
qed

subsection \<open>The outcomes of \<open>Save\<close>\<close>

abbreviation db_seen :: "pg_env \<Rightarrow> pg \<Rightarrow> db" where
  "db_seen env s \<equiv> others env (pg_n s) (pg_db s)"

definition save_statements :: "pg_env \<Rightarrow> order \<Rightarrow> nat" where
  "save_statements env ord = length (save_steps env ord) + 2"

lemma Save_ok_iff:
  "Save env (Some ord) s = (None, s1) \<longleftrightarrow>
    savable env ord (db_seen env s) \<and> no_faults env (pg_n s) (pg_n s + save_statements env ord) \<and>
    s1 = \<lparr>pg_db = save_db ord (db_seen env s), pg_n = pg_n s + save_statements env ord\<rparr>"
proof (cases "OrderUID ord = [] \<or> CustomerID ord = []")
  case True
  then show ?thesis by (auto simp: Save_def savable_def)
next
  case False
  let ?len = "length (save_steps env ord)" and ?n = "pg_n s"
  have faults: "no_faults env ?n (?n + save_statements env ord) \<longleftrightarrow>
      fault env ?n = None \<and> no_faults env (Suc ?n) (Suc ?n + ?len) \<and> fault env (Suc ?n + ?len) = None"
    using no_faults_last [of "Suc ?n" "Suc ?n + ?len" env]
      no_faults_Suc [of env ?n "Suc (Suc ?n + ?len)"]
    by (simp add: save_statements_def)
  obtain r m where tx: "run_tx env (Suc ?n) (save_steps env ord) (db_seen env s) = (r, m)"
    by (cases "run_tx env (Suc ?n) (save_steps env ord) (db_seen env s)")
  show ?thesis
  proof (cases r)
    case (Inl err)
    then have "\<not> (no_faults env (Suc ?n) (Suc ?n + ?len) \<and> admissible env ord (db_seen env s))"
      using run_tx_save [of env "Suc ?n" ord "db_seen env s"] tx by auto
    with False tx Inl show ?thesis
      unfolding faults by (auto simp: Save_def savable_def Let_def split: option.splits)
  next
    case (Inr d1)
    then have "no_faults env (Suc ?n) (Suc ?n + ?len)" "admissible env ord (db_seen env s)"
      "d1 = save_db ord (db_seen env s)" "m = Suc ?n + ?len"
      using run_tx_save [of env "Suc ?n" ord "db_seen env s" d1 m] tx by auto
    with False tx Inr show ?thesis
      unfolding faults
      by (auto simp: Save_def savable_def Let_def save_statements_def split: option.splits)
  qed
qed

lemma Save_error_cases:
  assumes "Save env (Some ord) s = (Some err, s1)"
  obtains (guard) "OrderUID ord = [] \<or> CustomerID ord = []" "s1 = s"
  | (rolled_back) "OrderUID ord \<noteq> []" "pg_db s1 = db_seen env s"
  | (commit_lost) m e where "savable env ord (db_seen env s)" "pg_db s1 = save_db ord (db_seen env s)"
      "commit_lost env m" "err = Wrapf ''commit'' e"
proof (cases "OrderUID ord = [] \<or> CustomerID ord = []")
  case True
  then show thesis using assms by (intro guard) (auto simp: Save_def split: if_splits)
next
  case False
  let ?n = "pg_n s"
  obtain r m where tx: "run_tx env (Suc ?n) (save_steps env ord) (db_seen env s) = (r, m)"
    by (cases "run_tx env (Suc ?n) (save_steps env ord) (db_seen env s)")
  consider "pg_db s1 = db_seen env s"
    | d1 e where "r = Inr d1" "pg_db s1 = d1" "commit_lost env m" "err = Wrapf ''commit'' e"
    using assms False tx
    by (auto simp: Save_def Let_def split: option.splits sum.splits if_splits)
  then show thesis
  proof cases
    case 1
    then show thesis using False by (intro rolled_back) auto
  next
    case (2 d1 e)
    then have "admissible env ord (db_seen env s)" "d1 = save_db ord (db_seen env s)"
      using run_tx_save [of env "Suc ?n" ord "db_seen env s" d1 m] tx by auto
    then show thesis using 2 False by (intro commit_lost) (auto simp: savable_def)
  qed
qed

section \<open>The invariant of the tables\<close>

definition keys_ok :: "db \<Rightarrow> bool" where
  "keys_ok d \<longleftrightarrow>
     distinct (map ro_uid (t_orders d)) \<and> distinct (map fst (t_deliveries d)) \<and>
     distinct (map fst (t_payments d)) \<and> distinct (map (\<lambda>(_, q). pTransaction q) (t_payments d)) \<and>
     distinct (map ir_id (t_items d)) \<and> list_all (\<lambda>r. ir_id r < t_items_seq d) (t_items d)"

definition refs_ok :: "db \<Rightarrow> bool" where
  "refs_ok d \<longleftrightarrow>
     list_all (\<lambda>r. ro_uid r \<noteq> [] \<and> ro_customer r \<in> set (t_customers d)) (t_orders d) \<and>
     list_all (\<lambda>(u, _). has_order u d) (t_deliveries d) \<and>
     list_all (\<lambda>(u, _). has_order u d) (t_payments d) \<and>
     list_all (\<lambda>r. has_order (ir_uid r) d) (t_items d)"

definition checks_ok :: "db \<Rightarrow> bool" where
  "checks_ok d \<longleftrightarrow>
     list_all (\<lambda>r. int4_ok (ro_sm_id r)) (t_orders d) \<and>
     list_all (\<lambda>(_, q). nonneg_int4 (pAmount q) \<and> 0 \<le> sint (pPaymentDT q) \<and> nonneg_int4 (pDeliveryCost q) \<and>
        nonneg_int4 (pGoodsTotal q) \<and> nonneg_int4 (pCustomFee q)) (t_payments d) \<and>
     list_all (\<lambda>r. item_ranges_ok (ir_item r) \<and> item_checks_ok (ir_item r)) (t_items d)"

definition db_inv :: "db \<Rightarrow> bool" where
  "db_inv d \<longleftrightarrow> keys_ok d \<and> refs_ok d \<and> checks_ok d"

lemma db_inv_empty [simp]: "db_inv empty_db"
  by (simp add: db_inv_def keys_ok_def refs_ok_def checks_ok_def empty_db_def)

lemma number_rows_simps [simp]:
  "map ir_item (number_rows k uid its) = its"
  "map ir_id (number_rows k uid its) = [k..<k + length its]"
  "list_all (\<lambda>r. P (ir_uid r)) (number_rows k uid its) \<longleftrightarrow> its = [] \<or> P uid"
  "list_all (\<lambda>r. Q (ir_item r)) (number_rows k uid its) \<longleftrightarrow> list_all Q its"
  "filter (\<lambda>r. ir_uid r = j) (number_rows k uid its) = (if j = uid then number_rows k uid its else [])"
proof -
  show "map ir_id (number_rows k uid its) = [k..<k + length its]"
  proof (induction its arbitrary: k)
    case (Cons it its)
    have "[k..<k + length (it # its)] = k # [Suc k..<Suc k + length its]"
      by (simp add: upt_conv_Cons del: upt_Suc)
    with Cons show ?case by simp
  qed simp
qed (induction its arbitrary: k; auto)+

lemma number_rowsD:
  "r \<in> set (number_rows k uid its) \<Longrightarrow>
    ir_uid r = uid \<and> ir_item r \<in> set its \<and> k \<le> ir_id r \<and> ir_id r < k + length its"
  by (induction its arbitrary: k) fastforce+

lemma list_all_upsert:
  "list_all P rows \<Longrightarrow> P new \<Longrightarrow> (\<And>r. P r \<Longrightarrow> conflict r \<Longrightarrow> P (upd r)) \<Longrightarrow>
    list_all P (upsert conflict new upd rows)"
  by (auto simp: upsert_def list_all_iff)

lemma save_db_simps [simp]:
  "t_customers (save_db ord d) = upsert (\<lambda>r. r = CustomerID ord) (CustomerID ord) (\<lambda>r. r) (t_customers d)"
  "t_orders (save_db ord d) = upsert (\<lambda>r. ro_uid r = OrderUID ord) (order_row ord)
     (\<lambda>r. (order_row ord)\<lparr>ro_uid := ro_uid r\<rparr>) (t_orders d)"
  "t_deliveries (save_db ord d) = upsert (\<lambda>(u, _). u = OrderUID ord) (OrderUID ord, Delivery ord)
     (\<lambda>(u, _). (u, Delivery ord)) (t_deliveries d)"
  "t_payments (save_db ord d) = upsert (\<lambda>(u, _). u = OrderUID ord) (OrderUID ord, Payment ord)
     (\<lambda>(u, q). (u, (Payment ord)\<lparr>pTransaction := pTransaction q\<rparr>)) (t_payments d)"
  "t_items (save_db ord d) = filter (\<lambda>r. ir_uid r \<noteq> OrderUID ord) (t_items d) @
     number_rows (t_items_seq d) (OrderUID ord) (item_list ord)"
  "t_items_seq (save_db ord d) = t_items_seq d + length (item_list ord)"
  by (simp_all add: save_db_def Let_def)

lemma transactions_upsert:
  "map (\<lambda>(_, q). pTransaction q) (upsert (\<lambda>(u, _). u = k) (k, pay)
      (\<lambda>(u, q). (u, pay\<lparr>pTransaction := pTransaction q\<rparr>)) rows) =
    (if list_ex (\<lambda>(u, _). u = k) rows then map (\<lambda>(_, q). pTransaction q) rows
     else map (\<lambda>(_, q). pTransaction q) rows @ [pTransaction pay])"
  by (auto simp: upsert_def)

lemma keys_ok_save:
  assumes "keys_ok d" and "transaction_free ord d"
  shows "keys_ok (save_db ord d)"
proof -
  have "distinct (map (\<lambda>(_, q). pTransaction q) (t_payments (save_db ord d)))"
    using assms unfolding save_db_simps transactions_upsert
    by (auto simp: keys_ok_def transaction_free_def list_ex_iff)
  moreover have "distinct (map ir_id (t_items (save_db ord d)))"
    using assms(1) by (auto simp: keys_ok_def distinct_map_filter list_all_iff)
  moreover have "list_all (\<lambda>r. ir_id r < t_items_seq (save_db ord d)) (t_items (save_db ord d))"
    using assms(1) by (fastforce simp: keys_ok_def list_all_iff dest: number_rowsD)
  ultimately show ?thesis
    using assms(1)
    by (auto simp: keys_ok_def keys_upsert_order keys_upsert_pair [where g = "\<lambda>_. Delivery ord"]
        keys_upsert_pair [where g = "\<lambda>q. (Payment ord)\<lparr>pTransaction := pTransaction q\<rparr>"])
qed

lemma has_order_save: "has_order u (save_db ord d) \<longleftrightarrow> u = OrderUID ord \<or> has_order u d"
  unfolding has_order_keys by (auto simp: keys_upsert_order)

lemma customers_save: "set (t_customers (save_db ord d)) = insert (CustomerID ord) (set (t_customers d))"
  by (auto simp: upsert_def list_ex_iff)

lemma refs_ok_save:
  assumes "refs_ok d" and "OrderUID ord \<noteq> []"
  shows "refs_ok (save_db ord d)"
proof -
  have "list_all (\<lambda>r. ro_uid r \<noteq> [] \<and> ro_customer r \<in> set (t_customers (save_db ord d))) (t_orders (save_db ord d))"
    unfolding save_db_simps(2) customers_save using assms
    by (intro list_all_upsert) (auto simp: refs_ok_def order_row_def elim!: list.pred_mono_strong)
  moreover have "list_all (\<lambda>(u, _). has_order u (save_db ord d)) (t_deliveries (save_db ord d))"
    unfolding save_db_simps(3) using assms
    by (intro list_all_upsert) (auto simp: refs_ok_def has_order_save elim!: list.pred_mono_strong)
  moreover have "list_all (\<lambda>(u, _). has_order u (save_db ord d)) (t_payments (save_db ord d))"
    unfolding save_db_simps(4) using assms
    by (intro list_all_upsert) (auto simp: refs_ok_def has_order_save elim!: list.pred_mono_strong)
  moreover have "list_all (\<lambda>r. has_order (ir_uid r) (save_db ord d)) (t_items (save_db ord d))"
    unfolding save_db_simps(5) using assms
    by (auto simp: refs_ok_def has_order_save list_all_iff dest: number_rowsD)
  ultimately show ?thesis by (simp only: refs_ok_def)
qed

lemma checks_ok_save:
  assumes "checks_ok d" and "ranges_ok ord"
  shows "checks_ok (save_db ord d)"
proof -
  have "list_all (\<lambda>r. int4_ok (ro_sm_id r)) (t_orders (save_db ord d))"
    unfolding save_db_simps(2) using assms
    by (intro list_all_upsert) (auto simp: checks_ok_def ranges_ok_def order_row_def)
  moreover have "list_all (\<lambda>(_, q). nonneg_int4 (pAmount q) \<and> 0 \<le> sint (pPaymentDT q) \<and>
      nonneg_int4 (pDeliveryCost q) \<and> nonneg_int4 (pGoodsTotal q) \<and> nonneg_int4 (pCustomFee q))
      (t_payments (save_db ord d))"
    unfolding save_db_simps(4) using assms
    by (intro list_all_upsert) (auto simp: checks_ok_def ranges_ok_def Let_def)
  moreover have "list_all (\<lambda>r. item_ranges_ok (ir_item r) \<and> item_checks_ok (ir_item r)) (t_items (save_db ord d))"
    unfolding save_db_simps(5) using assms
    by (auto simp: checks_ok_def ranges_ok_def list_all_iff dest: number_rowsD)
  ultimately show ?thesis by (simp only: checks_ok_def)
qed

lemma db_inv_save: "db_inv d \<Longrightarrow> savable env ord d \<Longrightarrow> db_inv (save_db ord d)"
  by (simp add: db_inv_def savable_def admissible_def keys_ok_save refs_ok_save checks_ok_save)

end
