(* ===== verification/Repo_Props.thy ===== *)
theory Repo_Props
  imports Repo_Inv
begin

text \<open>
  What the repository promises: the orders its tables hold by UID and how \<open>Save\<close> changes them,
  atomicity, the round trip from \<open>Save\<close> to \<open>GetByUID\<close>, and the pages of \<open>ListByCustomer\<close>.
\<close>

section \<open>The orders in the tables\<close>

definition stored_items :: "db \<Rightarrow> string \<Rightarrow> item list" where
  "stored_items d uid = map ir_item (filter (\<lambda>r. ir_uid r = uid) (t_items d))"

definition db_view :: "db \<Rightarrow> string \<Rightarrow> order option" where
  "db_view d uid =
     map_option (\<lambda>r. with_parts (map_of (t_deliveries d) uid) (map_of (t_payments d) uid)
         (append_nil (stored_items d uid)) (base_order r))
       (find (\<lambda>r. ro_uid r = uid) (t_orders d))"

text \<open>
  What the tables hold of an order once it is saved: its date in microseconds, \<open>nil\<close> for an
  empty list of items, and the transaction of the payment that was there before.
\<close>

definition kept :: "db \<Rightarrow> order \<Rightarrow> order" where
  "kept d ord = ord\<lparr>
     Payment := (Payment ord)\<lparr>pTransaction :=
       (case map_of (t_payments d) (OrderUID ord) of
          None \<Rightarrow> pTransaction (Payment ord) | Some q \<Rightarrow> pTransaction q)\<rparr>,
     Items := append_nil (item_list ord),
     DateCreated := of_micros (to_micros (DateCreated ord))\<rparr>"

lemma find_order_save:
  "find (\<lambda>r. ro_uid r = uid) (t_orders (save_db ord d)) =
    (if uid = OrderUID ord then Some (order_row ord) else find (\<lambda>r. ro_uid r = uid) (t_orders d))"
proof -
  have "(case find (\<lambda>r. ro_uid r = OrderUID ord) (t_orders d) of
      None \<Rightarrow> order_row ord | Some r \<Rightarrow> (order_row ord)\<lparr>ro_uid := ro_uid r\<rparr>) = order_row ord"
    by (auto simp: find_Some_iff order_row_def split: option.split)
  then show ?thesis
    unfolding save_db_simps by (subst find_upsert) simp_all
qed

lemma stored_items_save:
  "stored_items (save_db ord d) uid =
    (if uid = OrderUID ord then item_list ord else stored_items d uid)"
proof (cases "uid = OrderUID ord")
  case False
  then have "filter (\<lambda>r. ir_uid r \<noteq> OrderUID ord \<and> ir_uid r = uid) (t_items d) =
      filter (\<lambda>r. ir_uid r = uid) (t_items d)"
    by (intro filter_cong) auto
  with False show ?thesis by (simp add: stored_items_def)
qed (simp add: stored_items_def)

lemma parts_save:
  "map_of (t_deliveries (save_db ord d)) = (map_of (t_deliveries d))(OrderUID ord \<mapsto> Delivery ord)"
  "map_of (t_payments (save_db ord d)) = (map_of (t_payments d))(OrderUID ord \<mapsto> Payment (kept d ord))"
  using map_of_upsert [of "OrderUID ord" "Delivery ord" "\<lambda>_. Delivery ord" "t_deliveries d"]
    map_of_upsert [of "OrderUID ord" "Payment ord"
      "\<lambda>q. (Payment ord)\<lparr>pTransaction := pTransaction q\<rparr>" "t_payments d"]
  by (auto simp: kept_def split: option.split)

lemma base_order_row:
  "with_parts (Some del) (Some pay) its (base_order (order_row ord)) =
    ord\<lparr>Delivery := del, Payment := pay, Items := its, DateCreated := of_micros (to_micros (DateCreated ord))\<rparr>"
  by (simp add: with_parts_def base_order_def order_row_def)

lemma db_view_save [view_simps]:
  "db_view (save_db ord d) = (db_view d)(OrderUID ord \<mapsto> kept d ord)"
  by (rule ext) (simp add: db_view_def find_order_save stored_items_save parts_save
      base_order_row del: save_db_simps, simp add: kept_def)

lemma OrderUID_with_parts [simp]: "OrderUID (with_parts del pay its ord) = OrderUID ord"
  by (simp add: with_parts_def)

lemma base_order_simps [simp]:
  "OrderUID (base_order r) = ro_uid r" "CustomerID (base_order r) = ro_customer r"
  by (simp_all add: base_order_def)

lemma db_view_key:
  assumes "db_inv d" and "db_view d uid = Some ord"
  shows "OrderUID ord = uid \<and> uid \<noteq> []"
  using assms
  by (auto simp: db_view_def find_Some_iff db_inv_def refs_ok_def list_all_iff)

section \<open>Quiet surroundings\<close>

text \<open>No other session changes the database.\<close>

definition calm :: "pg_env \<Rightarrow> pg_env" where
  "calm env = env\<lparr>others := \<lambda>n d. d\<rparr>"

lemma calm_simps [simp]:
  "others (calm env) n d = d" "text_ok (calm env) = text_ok env" "fault (calm env) = fault env"
  "row_fault (calm env) = row_fault env" "commit_lost (calm env) = commit_lost env"
  "item_rank (calm env) = item_rank env" "order_rank (calm env) = order_rank env"
  "collate (calm env) = collate env"
  by (simp_all add: calm_def)

definition healthy :: pg_env where
  "healthy = \<lparr>text_ok = (\<lambda>s. CHR 0x00 \<notin> set s), fault = (\<lambda>n. None), row_fault = (\<lambda>n. None),
     commit_lost = (\<lambda>n. False), others = (\<lambda>n d. d), item_rank = (\<lambda>n k. k),
     order_rank = (\<lambda>n s. length s), collate = (\<lambda>s. s)\<rparr>"

definition new_pg :: pg where
  "new_pg = \<lparr>pg_db = empty_db, pg_n = 0\<rparr>"

section \<open>Properties of Save\<close>

text \<open>C6: \<open>Save\<close> is atomic: it leaves the tables as they were, its own or another session's state
  of them, or carries out the whole update of all five tables, which it does whenever it
  reports success; if it reports an error, the update can only have happened when the error
  came from the commit.\<close>
theorem Save_is_atomic:
  assumes "Save env (Some ord) s = (res, s1)"
  shows "(pg_db s1 = pg_db s \<or> pg_db s1 = db_seen env s \<or>
      pg_db s1 = save_db ord (db_seen env s) \<and> savable env ord (db_seen env s) \<and>
        (res = None \<or> (\<exists>err. res = Some (Wrapf ''commit'' err)))) \<and>
    (res = None \<longrightarrow> pg_db s1 = save_db ord (db_seen env s))"
proof (cases res)
  case None
  then show ?thesis using assms by (auto simp: Save_ok_iff)
next
  case (Some err)
  then have "Save env (Some ord) s = (Some err, s1)" using assms by simp
  then show ?thesis by (cases rule: Save_error_cases) (auto simp: Some)
qed

definition failing_at :: "nat \<Rightarrow> pg_env" where
  "failing_at k = healthy\<lparr>fault := \<lambda>n. if n = k then Some (Errorf ''conn closed'') else None\<rparr>"

lemma Save_is_atomic_witness:
  "fst (Save (failing_at 5) (Some (sample_order ''A'')) new_pg) = Some (Wrapf ''delete items'' (Errorf ''conn closed'')) \<and>
    t_orders (pg_db (snd (Save (failing_at 5) (Some (sample_order ''A'')) new_pg))) = []"
proof -
  obtain res s1 where run: "Save (failing_at 5) (Some (sample_order ''A'')) new_pg = (res, s1)"
    by (cases "Save (failing_at 5) (Some (sample_order ''A'')) new_pg")
  have "fst (Save (failing_at 5) (Some (sample_order ''A'')) new_pg) =
      Some (Wrapf ''delete items'' (Errorf ''conn closed''))"
    by code_simp
  then have res: "res = Some (Wrapf ''delete items'' (Errorf ''conn closed''))" using run by simp
  from Save_is_atomic [OF run] have "pg_db s1 = empty_db"
    by (auto simp: res failing_at_def healthy_def new_pg_def)
  then show ?thesis by (simp add: run res empty_db_def)
qed

lemma Save_db_inv:
  assumes "db_inv (pg_db s)" and "db_inv (db_seen env s)"
  shows "db_inv (pg_db (snd (Save env p s)))"
proof (cases p)
  case None
  then show ?thesis using assms by (simp add: Save_def)
next
  case (Some ord)
  obtain res s1 where run: "Save env (Some ord) s = (res, s1)" by (cases "Save env (Some ord) s")
  show ?thesis
  proof (cases res)
    case None
    then have "Save env (Some ord) s = (None, s1)" using run by simp
    then have "savable env ord (db_seen env s)" "pg_db s1 = save_db ord (db_seen env s)"
      by (simp_all add: Save_ok_iff)
    then show ?thesis using assms(2) by (simp add: Some run db_inv_save del: save_db_simps)
  next
    case (Some err)
    with run have "Save env (Some ord) s = (Some err, s1)" by simp
    then show ?thesis
      using assms run by (cases rule: Save_error_cases) (auto simp: \<open>p = Some ord\<close> db_inv_save)
  qed
qed


text \<open>when no statement fails for reasons of its own, \<open>Save\<close> succeeds exactly for the orders the
  schema admits: with UID and customer, texts the server takes, numbers in the ranges of their
  columns and not negative where the schema says so, and a transaction not used by another
  order.\<close>
theorem Save_succeeds_iff_savable:
  assumes "\<forall>n. fault env n = None"
  shows "fst (Save env (Some ord) s) = None \<longleftrightarrow> savable env ord (db_seen env s)"
proof -
  have "no_faults env n m" for n m using assms by (simp add: no_faults_def)
  then have "Save env (Some ord) s = (None, snd (Save env (Some ord) s)) \<longrightarrow> savable env ord (db_seen env s)"
    and "savable env ord (db_seen env s) \<Longrightarrow> Save env (Some ord) s =
      (None, \<lparr>pg_db = save_db ord (db_seen env s), pg_n = pg_n s + save_statements env ord\<rparr>)"
    using Save_ok_iff by blast+
  then show ?thesis by (metis fst_conv prod.collapse)
qed

lemma Save_succeeds_iff_savable_witness:
  "fst (Save healthy (Some (sample_order ''A'')) new_pg) = None \<and>
   fst (Save healthy (Some (sample_order ''A''\<lparr>SmID := 2 ^ 31\<rparr>)) new_pg) \<noteq> None"
proof -
  have "\<forall>n. fault healthy n = None" by (simp add: healthy_def)
  note iff = Save_succeeds_iff_savable [OF this, where s = new_pg]
  have "savable healthy (sample_order ''A'') (db_seen healthy new_pg)"
    "\<not> savable healthy (sample_order ''A''\<lparr>SmID := 2 ^ 31\<rparr>) (db_seen healthy new_pg)"
    by code_simp+
  then show ?thesis by (simp only: iff simp_thms)
qed

section \<open>Reading an order\<close>

text \<open>Equal but for the order of the items, which \<open>GetByUID\<close> leaves to the server.\<close>

definition same_items :: "order \<Rightarrow> order \<Rightarrow> bool" where
  "same_items a b \<longleftrightarrow> a\<lparr>Items := None\<rparr> = b\<lparr>Items := None\<rparr> \<and> mset (item_list a) = mset (item_list b)"

lemma select_Inr:
  "select (calm env) label texts f s = (Inr x, s1) \<longleftrightarrow>
    fault env (pg_n s) = None \<and> list_all (text_ok env) texts \<and> x = f (pg_db s) \<and>
    s1 = \<lparr>pg_db = pg_db s, pg_n = Suc (pg_n s)\<rparr>"
  by (auto simp: select_def Let_def split: option.split)

lemma select_db:
  "select (calm env) label texts f s = (r, s1) \<Longrightarrow> pg_db s1 = pg_db s \<and> pg_n s1 = Suc (pg_n s)"
  by (auto simp: select_def Let_def split: option.splits if_splits)

lemma delivered_ok: "delivered env n rows = (xs, None) \<longleftrightarrow> row_fault env n = None \<and> xs = rows"
  by (auto simp: delivered_def split: option.split)

lemma mset_items_of: "mset (items_of env n uid d) = mset (stored_items d uid)"
  by (simp add: items_of_def stored_items_def)

lemma item_list_append_nil [simp]: "slice_list (append_nil xs) = xs"
  by (simp add: append_nil_def)

lemma GetByUID_db: "pg_db (snd (GetByUID (calm env) uid s)) = pg_db s"
  unfolding GetByUID_def
  by (auto split: sum.splits option.splits prod.splits dest!: select_db)

lemma with_parts_items:
  "mset its = mset its' \<Longrightarrow>
    same_items (with_parts del pay (append_nil its) ord) (with_parts del pay (append_nil its') ord)"
  by (simp add: same_items_def with_parts_def)

lemma GetByUID_result:
  assumes "GetByUID (calm env) uid s = (Inr p, s1)"
  shows "rel_option same_items p (db_view (pg_db s) uid)"
proof (cases "find (\<lambda>r. ro_uid r = uid) (t_orders (pg_db s))")
  case None
  then have "p = None"
    using assms unfolding GetByUID_def
    by (auto simp: select_Inr split: sum.splits option.splits prod.splits)
  with None show ?thesis by (simp add: db_view_def)
next
  case (Some row)
  then obtain n where "p = Some (with_parts (map_of (t_deliveries (pg_db s)) uid)
      (map_of (t_payments (pg_db s)) uid) (append_nil (items_of (calm env) n uid (pg_db s))) (base_order row))"
    using assms unfolding GetByUID_def
    by (auto simp: select_Inr delivered_ok split: sum.splits option.splits prod.splits)
  with Some show ?thesis
    by (simp add: db_view_def with_parts_items mset_items_of)
qed

text \<open>When no statement fails, and no rows are lost, an answer comes.\<close>

definition reads_ok :: "pg_env \<Rightarrow> nat \<Rightarrow> bool" where
  "reads_ok env n \<longleftrightarrow> (\<forall>k \<ge> n. fault env k = None \<and> row_fault env k = None)"

lemma GetByUID_answers:
  assumes "reads_ok env (pg_n s)" and "text_ok env uid"
  shows "\<exists>p. fst (GetByUID env uid s) = Inr p"
proof -
  have ok: "fault env k = None" "row_fault env k = None" if "pg_n s \<le> k" for k
    using assms(1) that by (simp_all add: reads_ok_def)
  have sel: "select env label [uid] f s' = (Inr (f (others env (pg_n s') (pg_db s'))),
      \<lparr>pg_db = others env (pg_n s') (pg_db s'), pg_n = Suc (pg_n s')\<rparr>)" if "pg_n s \<le> pg_n s'"
    for label and f :: "db \<Rightarrow> 'x" and s'
    using that assms(2) by (simp add: select_def Let_def ok)
  show ?thesis
    by (simp add: GetByUID_def sel delivered_def ok split: option.split)
qed

text \<open>C14: an order read after a successful \<open>Save\<close> is the order saved, with its items in some order
  and its date in microseconds; the payment keeps the transaction it was first saved with.
  What the repository holds under other UIDs is as before.\<close>
theorem Save_then_GetByUID:
  assumes "Save (calm env) (Some ord) s = (None, s1)"
    and "GetByUID (calm env) uid s1 = (Inr p, s2)"
  shows "(uid = OrderUID ord \<longrightarrow> (\<exists>ord'. p = Some ord' \<and> same_items ord' (kept (pg_db s) ord))) \<and>
    (uid \<noteq> OrderUID ord \<longrightarrow> rel_option same_items p (db_view (pg_db s) uid))"
proof -
  have "pg_db s1 = save_db ord (pg_db s)" using assms(1) by (simp add: Save_ok_iff)
  then have "rel_option same_items p (((db_view (pg_db s))(OrderUID ord \<mapsto> kept (pg_db s) ord)) uid)"
    using GetByUID_result [OF assms(2)] by (simp only: view_simps)
  then show ?thesis by (auto simp: option_rel_Some2)
qed

lemma Save_then_GetByUID_witness:
  "\<exists>ord'. fst (GetByUID (calm healthy) ''A'' (snd (Save (calm healthy) (Some (sample_order ''A'')) new_pg))) =
      Inr (Some ord') \<and> same_items ord' (sample_order ''A'')"
proof -
  obtain s1 where save: "Save (calm healthy) (Some (sample_order ''A'')) new_pg = (None, s1)"
  proof -
    have "fst (Save (calm healthy) (Some (sample_order ''A'')) new_pg) = None" by code_simp
    then show thesis using that by (metis prod.collapse)
  qed
  have "\<exists>p. fst (GetByUID (calm healthy) ''A'' s1) = Inr p"
    by (rule GetByUID_answers) (simp_all add: reads_ok_def healthy_def)
  then obtain p s2 where get: "GetByUID (calm healthy) ''A'' s1 = (Inr p, s2)"
    by (metis prod.collapse)
  have "kept (pg_db new_pg) (sample_order ''A'') = sample_order ''A''"
    by (simp add: kept_def new_pg_def empty_db_def sample_order_def zero_order_def zero_payment_def
        append_nil_def to_micros_def of_micros_def)
  then show ?thesis
    using Save_then_GetByUID [OF save get] by (auto simp: save get)
qed

lemma upsert_idem:
  assumes "conflict new" and "upd new = new"
    and "\<And>r. conflict r \<Longrightarrow> conflict (upd r) \<and> upd (upd r) = upd r"
  shows "upsert conflict new upd (upsert conflict new upd rows) = upsert conflict new upd rows"
proof -
  let ?rows = "upsert conflict new upd rows"
  have "list_ex conflict ?rows" using assms(1,3) by (auto simp: upsert_def list_ex_iff)
  moreover have "upd r = r" if "r \<in> set ?rows" "conflict r" for r
    using that assms by (auto simp: upsert_def list_ex_iff split: if_splits)
  then have "map (\<lambda>r. if conflict r then upd r else r) ?rows = ?rows" by (intro map_idI) simp
  ultimately show ?thesis by (simp only: upsert_def [of conflict new upd ?rows] if_True)
qed

text \<open>saving the same order again changes nothing the repository can be asked for, and leaves
  the orders, deliveries, payments and customers tables as they are.\<close>
theorem Save_is_idempotent:
  assumes "Save (calm env) (Some ord) s = (None, s1)" and "Save (calm env) (Some ord) s1 = (None, s2)"
  shows "db_view (pg_db s2) = db_view (pg_db s1) \<and>
    t_orders (pg_db s2) = t_orders (pg_db s1) \<and> t_deliveries (pg_db s2) = t_deliveries (pg_db s1) \<and>
    t_payments (pg_db s2) = t_payments (pg_db s1) \<and> t_customers (pg_db s2) = t_customers (pg_db s1)"
proof -
  have dbs: "pg_db s1 = save_db ord (pg_db s)" "pg_db s2 = save_db ord (save_db ord (pg_db s))"
    using assms by (simp_all add: Save_ok_iff del: save_db_simps)
  have tables: "t_orders (pg_db s2) = t_orders (pg_db s1)" "t_deliveries (pg_db s2) = t_deliveries (pg_db s1)"
    "t_payments (pg_db s2) = t_payments (pg_db s1)" "t_customers (pg_db s2) = t_customers (pg_db s1)"
    unfolding dbs save_db_simps by (rule upsert_idem; auto simp: order_row_def)+
  moreover have "stored_items (pg_db s2) = stored_items (pg_db s1)"
    unfolding dbs by (rule ext) (simp add: stored_items_save del: save_db_simps)
  ultimately show ?thesis by (simp add: db_view_def fun_eq_iff)
qed

lemma Save_is_idempotent_witness:
  "db_view (pg_db (snd (Save (calm healthy) (Some (sample_order ''A''))
     (snd (Save (calm healthy) (Some (sample_order ''A'')) new_pg))))) =
   db_view (pg_db (snd (Save (calm healthy) (Some (sample_order ''A'')) new_pg)))"
proof -
  let ?s1 = "snd (Save (calm healthy) (Some (sample_order ''A'')) new_pg)"
  have "fst (Save (calm healthy) (Some (sample_order ''A'')) new_pg) = None"
    "fst (Save (calm healthy) (Some (sample_order ''A'')) ?s1) = None"
    by code_simp+
  then have "Save (calm healthy) (Some (sample_order ''A'')) new_pg = (None, ?s1)"
    "Save (calm healthy) (Some (sample_order ''A'')) ?s1 =
      (None, snd (Save (calm healthy) (Some (sample_order ''A'')) ?s1))"
    by (simp_all add: prod_eq_iff)
  from Save_is_idempotent [OF this] show ?thesis by simp
qed

text \<open>the transaction of a payment is never updated: after an order is saved again with another
  transaction, the repository answers with the first one, although \<open>Save\<close> reported success.\<close>
theorem Save_keeps_first_transaction:
  assumes "Save (calm env) (Some ord) s = (None, s1)"
    and "Save (calm env) (Some (ord\<lparr>Payment := (Payment ord)\<lparr>pTransaction := tx\<rparr>\<rparr>)) s1 = (None, s2)"
    and "db_view (pg_db s) (OrderUID ord) = None" and "db_inv (pg_db s)"
  shows "\<exists>ord'. db_view (pg_db s2) (OrderUID ord) = Some ord' \<and>
    pTransaction (Payment ord') = pTransaction (Payment ord)"
proof -
  have dbs: "pg_db s1 = save_db ord (pg_db s)"
    "pg_db s2 = save_db (ord\<lparr>Payment := (Payment ord)\<lparr>pTransaction := tx\<rparr>\<rparr>) (save_db ord (pg_db s))"
    using assms(1,2) by (simp_all add: Save_ok_iff del: save_db_simps)
  have "\<not> has_order (OrderUID ord) (pg_db s)"
    using assms(3) by (auto simp: db_view_def has_order_def list_ex_iff find_None_iff)
  then have "map_of (t_payments (pg_db s)) (OrderUID ord) = None"
    using assms(4) by (force simp: db_inv_def refs_ok_def list_all_iff map_of_eq_None_iff)
  then have "pTransaction (Payment (kept (pg_db s) ord)) = pTransaction (Payment ord)"
    by (simp add: kept_def)
  then show ?thesis
    unfolding dbs by (simp add: view_simps parts_save del: save_db_simps) (simp add: kept_def parts_save del: save_db_simps)
qed

lemma Save_keeps_first_transaction_witness:
  "\<exists>ord'. db_view (pg_db (snd (Save (calm healthy)
       (Some (sample_order ''A''\<lparr>Payment := (Payment (sample_order ''A''))\<lparr>pTransaction := ''B''\<rparr>\<rparr>))
       (snd (Save (calm healthy) (Some (sample_order ''A'')) new_pg))))) ''A'' = Some ord' \<and>
     pTransaction (Payment ord') = ''A''"
proof -
  let ?new = "sample_order ''A''\<lparr>Payment := (Payment (sample_order ''A''))\<lparr>pTransaction := ''B''\<rparr>\<rparr>"
  let ?s1 = "snd (Save (calm healthy) (Some (sample_order ''A'')) new_pg)"
  have "fst (Save (calm healthy) (Some (sample_order ''A'')) new_pg) = None"
    "fst (Save (calm healthy) (Some ?new) ?s1) = None"
    by code_simp+
  then have saves: "Save (calm healthy) (Some (sample_order ''A'')) new_pg = (None, ?s1)"
    "Save (calm healthy) (Some ?new) ?s1 = (None, snd (Save (calm healthy) (Some ?new) ?s1))"
    by (simp_all add: prod_eq_iff)
  have "db_view (pg_db new_pg) (OrderUID (sample_order ''A'')) = None"
    by (simp add: db_view_def new_pg_def empty_db_def)
  moreover have "db_inv (pg_db new_pg)" by (simp add: new_pg_def)
  moreover have "pTransaction (Payment (sample_order ''A'')) = ''A''" by (simp add: sample_order_def)
  ultimately show ?thesis
    using Save_keeps_first_transaction [OF saves] by (simp only: sample_order_simps)
qed

end
