(* ===== verification/Repo_List.thy ===== *)
theory Repo_List
  imports Repo_Props
begin

text \<open>
  The listing queries of the repository: what \<open>ListByCustomer\<close> assembles from its four queries,
  how its pages fit together, and what \<open>LastN\<close> returns for the warm-up of the cache.
\<close>

section \<open>Assembling a page\<close>

lemma fold_at_uid:
  assumes "distinct (map fst rows)" and "\<And>x ord. OrderUID (f x ord) = OrderUID ord"
  shows "fold (\<lambda>(uid, x). at_uid uid (f x)) rows ords =
    map (\<lambda>ord. case map_of rows (OrderUID ord) of None \<Rightarrow> ord | Some x \<Rightarrow> f x ord) ords"
  using assms(1)
proof (induction rows arbitrary: ords)
  case (Cons row rows)
  obtain k x where row: "row = (k, x)" by (cases row)
  have "map_of rows k = None" using Cons.prems row by (simp add: map_of_eq_None_iff)
  then show ?case
    using Cons row assms(2) by (simp add: at_uid_def)
qed simp

lemma map_of_page_part: "uid \<in> set uids \<Longrightarrow> map_of (page_part uids rows) uid = map_of rows uid"
  by (induction rows) (auto simp: page_part_def)

lemma distinct_page_part: "distinct (map fst rows) \<Longrightarrow> distinct (map fst (page_part uids rows))"
  by (simp add: page_part_def distinct_map_filter)

text \<open>The page's orders as \<open>ListByCustomer\<close> builds them, for rows of the base query.\<close>

definition page_order :: "items_row list \<Rightarrow> db \<Rightarrow> orders_row \<Rightarrow> order" where
  "page_order its d r =
     with_parts (map_of (t_deliveries d) (ro_uid r)) (map_of (t_payments d) (ro_uid r))
       (append_nil (items_by_uid its (ro_uid r))) (base_order r)"

definition join_row :: "items_row list \<Rightarrow> db \<Rightarrow> order \<Rightarrow> order" where
  "join_row its d ord =
     (let ord1 = (case map_of (t_payments d) (OrderUID ord) of None \<Rightarrow> ord | Some p \<Rightarrow> ord\<lparr>Payment := p\<rparr>);
          ord2 = (case map_of (t_deliveries d) (OrderUID ord) of None \<Rightarrow> ord1 | Some x \<Rightarrow> ord1\<lparr>Delivery := x\<rparr>);
          xs = items_by_uid its (OrderUID ord)
      in if 0 < length xs then ord2\<lparr>Items := Some xs\<rparr> else ord2)"

lemma join_base_order: "join_row its d (base_order r) = page_order its d r"
proof -
  have "Items (base_order r) = None" by (simp add: base_order_def zero_order_def)
  then show ?thesis
    by (cases "map_of (t_payments d) (ro_uid r)"; cases "map_of (t_deliveries d) (ro_uid r)";
        cases "items_by_uid its (ro_uid r)")
      (simp_all add: join_row_def page_order_def with_parts_def append_nil_def)
qed

lemma assemble:
  assumes "keys_ok d" and "uids = map ro_uid rows"
  shows "add_items its (add_deliveries (page_part uids (t_deliveries d))
      (add_payments (page_part uids (t_payments d)) (map base_order rows))) =
    map (page_order its d) rows"
proof -
  define pay where "pay ord = (case map_of (page_part uids (t_payments d)) (OrderUID ord) of None \<Rightarrow> ord
      | Some p \<Rightarrow> ord\<lparr>Payment := p\<rparr>)" for ord :: order
  define del where "del ord = (case map_of (page_part uids (t_deliveries d)) (OrderUID ord) of None \<Rightarrow> ord
      | Some x \<Rightarrow> ord\<lparr>Delivery := x\<rparr>)" for ord :: order
  have uid: "OrderUID (pay ord) = OrderUID ord" "OrderUID (del ord) = OrderUID ord" for ord
    by (simp_all add: pay_def del_def split: option.split)
  have "add_payments (page_part uids (t_payments d)) ords = map pay ords"
    "add_deliveries (page_part uids (t_deliveries d)) ords = map del ords" for ords
    unfolding add_payments_def add_deliveries_def pay_def del_def
    using assms(1) by (intro fold_at_uid; simp add: keys_ok_def distinct_page_part)+
  then have "add_items its (add_deliveries (page_part uids (t_deliveries d))
      (add_payments (page_part uids (t_payments d)) (map base_order rows))) =
    map (\<lambda>r. let ord = del (pay (base_order r)); xs = items_by_uid its (OrderUID ord)
             in if 0 < length xs then ord\<lparr>Items := Some xs\<rparr> else ord) rows"
    by (simp add: add_items_def comp_def Let_def uid)
  also have "\<dots> = map (\<lambda>r. join_row its d (base_order r)) rows"
  proof (intro map_cong refl)
    fix r assume "r \<in> set rows"
    then have "ro_uid r \<in> set uids" by (simp add: assms(2))
    then show "(let ord = del (pay (base_order r)); xs = items_by_uid its (OrderUID ord)
        in if 0 < length xs then ord\<lparr>Items := Some xs\<rparr> else ord) = join_row its d (base_order r)"
      by (simp add: join_row_def Let_def uid)
        (simp add: pay_def del_def map_of_page_part split: option.split)
  qed
  finally show ?thesis by (simp add: join_base_order)
qed

lemma find_row:
  assumes "keys_ok d" and "r \<in> set (t_orders d)"
  shows "find (\<lambda>r'. ro_uid r' = ro_uid r) (t_orders d) = Some r"
proof -
  have "find (\<lambda>r'. ro_uid r' = ro_uid r) rows = Some r" if "r \<in> set rows" "distinct (map ro_uid rows)" for rows
    using that by (induction rows) (auto simp: rev_image_eqI)
  with assms show ?thesis by (simp add: keys_ok_def)
qed

lemma page_order_db_view:
  assumes "keys_ok d" and "r \<in> set (t_orders d)" and "ro_uid r \<in> set uids"
  shows "rel_option same_items (Some (page_order (page_items env n uids d) d r)) (db_view d (ro_uid r))"
proof -
  note find_row [OF assms(1,2)]
  moreover have "mset (items_by_uid (page_items env n uids d) (ro_uid r)) = mset (stored_items d (ro_uid r))"
  proof -
    have "filter_mset (\<lambda>x. ir_uid x = ro_uid r) (filter_mset (\<lambda>x. ir_uid x \<in> set uids) M) =
        filter_mset (\<lambda>x. ir_uid x = ro_uid r) M" for M :: "items_row multiset"
      using assms(3) by (induction M) auto
    then show ?thesis by (simp add: items_by_uid_def page_items_def stored_items_def)
  qed
  ultimately show ?thesis
    by (simp add: db_view_def page_order_def with_parts_items)
qed

section \<open>The answer of \<open>ListByCustomer\<close>\<close>

definition eff_limit :: "goint \<Rightarrow> nat" where
  "eff_limit limit = nat (if sint limit \<le> 0 then 20 else sint limit)"

definition eff_offset :: "goint \<Rightarrow> nat" where
  "eff_offset offset = nat (sint offset)"

lemma select_calm:
  "select (calm env) label texts f s =
    ((case fault env (pg_n s) of
        Some err \<Rightarrow> Inl (Wrapf label err)
      | None \<Rightarrow> if list_all (text_ok env) texts then Inr (f (pg_db s)) else Inl (Wrapf label text_error)),
     \<lparr>pg_db = pg_db s, pg_n = Suc (pg_n s)\<rparr>)"
  by (simp add: select_def Let_def split: option.split)

lemma List_raw:
  assumes "ListByCustomer (calm env) cust limit offset s = (Inr ords, s1)"
  shows "pg_db s1 = pg_db s \<and> (\<exists>n.
    (let rows = customer_page (calm env) (pg_n s) cust (eff_limit limit) (eff_offset offset) (pg_db s);
         uids = map ro_uid rows
     in ords = Some (add_items (page_items (calm env) n uids (pg_db s))
          (add_deliveries (page_part uids (t_deliveries (pg_db s)))
            (add_payments (page_part uids (t_payments (pg_db s))) (map base_order rows))))))"
proof -
  have lim: "nat (sint (if sint limit \<le> 0 then 20 else limit)) = eff_limit limit"
    "nat (sint (if sint offset < 0 then 0 else offset)) = eff_offset offset"
    by (simp_all add: eff_limit_def eff_offset_def)
  have nil: "add_items its (add_deliveries dels (add_payments pays [])) = []" for its dels pays
  proof -
    have "add_payments pays [] = []" by (induction pays) (auto simp: add_payments_def at_uid_def)
    moreover have "add_deliveries dels [] = []"
      by (induction dels) (auto simp: add_deliveries_def at_uid_def)
    ultimately show ?thesis by (simp add: add_items_def)
  qed
  let ?rows = "customer_page (calm env) (pg_n s) cust (eff_limit limit) (eff_offset offset) (pg_db s)"
  show ?thesis
  proof (cases "?rows = []")
    case True
    then show ?thesis
      using assms unfolding ListByCustomer_def Let_def lim
      by (auto simp: select_Inr delivered_ok nil split: sum.splits option.splits prod.splits)
  next
    case False
    then show ?thesis
      using assms unfolding ListByCustomer_def Let_def lim
      by (simp add: select_calm delivered_def split: option.splits if_splits) auto
  qed
qed

lemma customer_page_set:
  "set (customer_page env n cust limit offset d) \<subseteq> {r \<in> set (t_orders d). ro_customer r = cust}"
  using set_take_subset set_drop_subset by (fastforce simp: customer_page_def)

lemma List_result:
  assumes "db_inv (pg_db s)" and "ListByCustomer (calm env) cust limit offset s = (Inr ords, s1)"
  obtains n where "pg_db s1 = pg_db s" and
    "ords = Some (map (page_order (page_items (calm env) n
        (map ro_uid (customer_page (calm env) (pg_n s) cust (eff_limit limit) (eff_offset offset) (pg_db s)))
        (pg_db s)) (pg_db s))
      (customer_page (calm env) (pg_n s) cust (eff_limit limit) (eff_offset offset) (pg_db s)))"
  using List_raw [OF assms(2)] assms(1) by (auto simp: Let_def assemble db_inv_def)

section \<open>Order and paging\<close>

lemma map_sort_desc:
  fixes f :: "'a \<Rightarrow> 'b :: linorder" and k :: "'a \<Rightarrow> 'c :: linorder"
  assumes "\<And>x y. k x \<le> k y \<Longrightarrow> f y \<le> f x"
  shows "map f (sort_key k xs) = rev (sort (map f xs))"
proof -
  have "sorted_wrt (\<lambda>x y. k x \<le> k y) (sort_key k xs)"
    using sorted_sort_key [of k xs] by (simp add: sorted_wrt_map)
  then have "sorted_wrt (\<lambda>x y. f y \<le> f x) (sort_key k xs)"
    using assms by (rule sorted_wrt_mono_rel [rotated])
  then have "sorted (rev (map f (sort_key k xs)))"
    by (simp add: sorted_wrt_rev sorted_wrt_map)
  moreover have "mset (rev (map f (sort_key k xs))) = mset (map f xs)" by simp
  ultimately have "sort (map f xs) = rev (map f (sort_key k xs))"
    by (intro properties_for_sort) simp_all
  then show ?thesis by simp
qed

definition customer_rows :: "string \<Rightarrow> db \<Rightarrow> orders_row list" where
  "customer_rows cust d = filter (\<lambda>r. ro_customer r = cust) (t_orders d)"

lemma distinct_map_sort [simp]: "distinct (map f (sort_key k xs)) \<longleftrightarrow> distinct (map f xs)"
  by (rule mset_eq_imp_distinct_iff) simp

lemma distinct_map_part: "distinct (map f xs) \<Longrightarrow> distinct (map f (take n (drop m xs)))"
  by (simp add: take_map [symmetric] drop_map [symmetric])

lemma page_dates:
  "map ro_micros (customer_page env n cust limit offset d) =
    take limit (drop offset (rev (sort (map ro_micros (customer_rows cust d)))))"
proof -
  have "map ro_micros (sort_key (\<lambda>r. (Desc (ro_micros r), Desc (collate env (ro_uid r)))) xs) =
      rev (sort (map ro_micros xs))" for xs :: "orders_row list"
    by (rule map_sort_desc) (auto simp: less_eq_prod_def less_eq_desc_def less_desc_def)
  moreover have "sort (map ro_micros (sort_key k xs)) = sort (map ro_micros xs)"
    for k :: "orders_row \<Rightarrow> nat" and xs
    by (rule properties_for_sort) simp_all
  ultimately show ?thesis
    by (simp add: customer_page_def customer_rows_def take_map [symmetric] drop_map [symmetric])
qed

lemma page_order_simps [simp]:
  "OrderUID (page_order its d r) = ro_uid r" "CustomerID (page_order its d r) = ro_customer r"
  "DateCreated (page_order its d r) = of_micros (ro_micros r)"
  by (simp_all add: page_order_def with_parts_def base_order_def)

text \<open>a page of \<open>ListByCustomer\<close> is the part from \<open>offset\<close> of at most \<open>limit\<close> orders of the
  customer's orders by descending date, where a limit that is not positive means 20 and a
  negative offset 0; no order occurs twice, and the slice is not \<open>nil\<close>.\<close>
theorem List_is_page_by_date:
  assumes "db_inv (pg_db s)" and "ListByCustomer (calm env) cust limit offset s = (Inr ords, s1)"
  shows "map DateCreated (slice_list ords) = map of_micros
      (take (eff_limit limit) (drop (eff_offset offset)
        (rev (sort (map ro_micros (customer_rows cust (pg_db s))))))) \<and>
    (\<forall>ord\<in>set (slice_list ords). CustomerID ord = cust) \<and>
    distinct (map OrderUID (slice_list ords)) \<and> ords \<noteq> None"
proof -
  let ?rows = "customer_page (calm env) (pg_n s) cust (eff_limit limit) (eff_offset offset) (pg_db s)"
  obtain its where ords: "ords = Some (map (page_order its (pg_db s)) ?rows)"
    by (rule List_result [OF assms]) blast
  have "distinct (map ro_uid (filter P (t_orders (pg_db s))))" for P
    using assms(1) by (simp add: db_inv_def keys_ok_def distinct_map_filter)
  then have "distinct (map ro_uid ?rows)"
    unfolding customer_page_def by (intro distinct_map_part) simp
  moreover have "map DateCreated (slice_list ords) = map of_micros (map ro_micros ?rows)"
    by (simp add: ords)
  ultimately show ?thesis
    unfolding page_dates using customer_page_set [of "calm env" "pg_n s" cust "eff_limit limit" "eff_offset offset" "pg_db s"]
    by (auto simp: ords comp_def)
qed

definition two_orders :: pg where
  "two_orders = snd (Save (calm healthy) (Some (sample_order ''B''\<lparr>DateCreated := 65 * 10 ^ 18\<rparr>))
     (snd (Save (calm healthy) (Some (sample_order ''A'')) new_pg)))"

lemma db_inv_two_orders: "db_inv (pg_db two_orders)"
  unfolding two_orders_def by (intro Save_db_inv) (simp_all add: new_pg_def Save_db_inv)

lemma List_is_page_by_date_witness:
  "\<exists>ords s1. ListByCustomer (calm healthy) ''cust'' 1 0 two_orders = (Inr ords, s1) \<and>
     map DateCreated (slice_list ords) = [65 * 10 ^ 18]"
proof -
  have "(case fst (ListByCustomer (calm healthy) ''cust'' 1 0 two_orders) of Inl _ \<Rightarrow> False | Inr _ \<Rightarrow> True)"
    by code_simp
  then obtain ords s1 where run: "ListByCustomer (calm healthy) ''cust'' 1 0 two_orders = (Inr ords, s1)"
    by (cases "ListByCustomer (calm healthy) ''cust'' 1 0 two_orders") (auto split: sum.splits)
  have dates: "map ro_micros (customer_rows ''cust'' (pg_db two_orders)) = [64 * 10 ^ 15, 65 * 10 ^ 15]"
    by code_simp
  have "sint (1 :: goint) = 1" by simp
  with List_is_page_by_date [OF db_inv_two_orders run] have "map DateCreated (slice_list ords) = [65 * 10 ^ 18]"
    unfolding dates by (simp add: eff_limit_def eff_offset_def of_micros_def)
  with run show ?thesis by (intro exI conjI)
qed

lemma same_items_refl [simp]: "same_items a a"
  by (simp add: same_items_def)

lemma same_items_sym: "same_items a b \<Longrightarrow> same_items b a"
  by (simp add: same_items_def)

lemma same_items_trans: "same_items a b \<Longrightarrow> same_items b c \<Longrightarrow> same_items a c"
  by (simp add: same_items_def)

lemma List_view:
  assumes "db_inv (pg_db s)" and "ListByCustomer (calm env) cust limit offset s = (Inr ords, s1)"
    and "ord \<in> set (slice_list ords)"
  shows "rel_option same_items (Some ord) (db_view (pg_db s) (OrderUID ord)) \<and> CustomerID ord = cust"
proof -
  let ?rows = "customer_page (calm env) (pg_n s) cust (eff_limit limit) (eff_offset offset) (pg_db s)"
  obtain n where "ords = Some (map (page_order (page_items (calm env) n (map ro_uid ?rows) (pg_db s)) (pg_db s)) ?rows)"
    by (rule List_result [OF assms(1,2)]) blast
  then obtain r where "r \<in> set ?rows"
    and ord: "ord = page_order (page_items (calm env) n (map ro_uid ?rows) (pg_db s)) (pg_db s) r"
    using assms(3) by auto
  then show ?thesis
    using page_order_db_view [of "pg_db s" r "map ro_uid ?rows" "calm env" n] assms(1)
      customer_page_set [of "calm env" "pg_n s" cust "eff_limit limit" "eff_offset offset" "pg_db s"]
    by (auto simp: db_inv_def)
qed

text \<open>C27: every order of a page is, up to the order of its items, what \<open>GetByUID\<close> answers for its UID:
  the four joined queries of a page and the four of a single order agree.\<close>
theorem List_agrees_with_GetByUID:
  assumes "db_inv (pg_db s)" and "ListByCustomer (calm env) cust limit offset s = (Inr ords, s1)"
    and "ord \<in> set (slice_list ords)" and "GetByUID (calm env) (OrderUID ord) s1 = (Inr p, s2)"
  shows "\<exists>ord'. p = Some ord' \<and> same_items ord ord'"
proof -
  have "pg_db s1 = pg_db s" using List_raw [OF assms(2)] by simp
  then have "rel_option same_items p (db_view (pg_db s) (OrderUID ord))"
    using GetByUID_result [OF assms(4)] by simp
  moreover have "rel_option same_items (Some ord) (db_view (pg_db s) (OrderUID ord))"
    using List_view [OF assms(1-3)] by simp
  ultimately show ?thesis
    by (auto simp: option_rel_Some1 option_rel_Some2 same_items_def)
qed

lemma List_agrees_with_GetByUID_witness:
  "\<exists>ord s1 ord'. fst (ListByCustomer (calm healthy) ''cust'' 1 0 two_orders) = Inr (Some [ord]) \<and>
     fst (GetByUID (calm healthy) (OrderUID ord) s1) = Inr (Some ord') \<and> same_items ord ord'"
proof -
  have "(case fst (ListByCustomer (calm healthy) ''cust'' 1 0 two_orders) of
      Inr (Some [ord]) \<Rightarrow> OrderUID ord = ''B'' | _ \<Rightarrow> False)"
    by code_simp
  then obtain ord s1 where run: "ListByCustomer (calm healthy) ''cust'' 1 0 two_orders = (Inr (Some [ord]), s1)"
    and uid: "OrderUID ord = ''B''"
    by (cases "ListByCustomer (calm healthy) ''cust'' 1 0 two_orders")
      (auto split: sum.splits option.splits list.splits)
  have "\<exists>p. fst (GetByUID (calm healthy) (OrderUID ord) s1) = Inr p"
    by (rule GetByUID_answers) (simp_all add: reads_ok_def healthy_def uid)
  then obtain p s2 where get: "GetByUID (calm healthy) (OrderUID ord) s1 = (Inr p, s2)"
    by (metis prod.collapse)
  obtain ord' where "p = Some ord'" "same_items ord ord'"
    using List_agrees_with_GetByUID [OF db_inv_two_orders run _ get] by auto
  with run get have "fst (ListByCustomer (calm healthy) ''cust'' 1 0 two_orders) = Inr (Some [ord]) \<and>
     fst (GetByUID (calm healthy) (OrderUID ord) s1) = Inr (Some ord') \<and> same_items ord ord'"
    by simp
  then show ?thesis by (intro exI)
qed

text \<open>A total order of a customer's rows makes the pages independent of how the server scans.\<close>

lemma sort_key_total:
  assumes "mset xs = mset ys" and "inj_on k (set xs)"
  shows "sort_key k xs = sort_key k ys"
proof (rule sort_key_inj_key_eq [OF _ assms(2)])
  show "mset xs = mset (sort_key k ys)" using assms(1) by simp
  show "sorted (map k (sort_key k ys))" by (rule sorted_sort_key)
qed

lemma customer_page_scan:
  assumes "inj (collate env)" and "distinct (map ro_uid (t_orders d))"
  shows "customer_page env n cust limit offset d = take limit (drop offset
    (sort_key (\<lambda>r. (Desc (ro_micros r), Desc (collate env (ro_uid r)))) (customer_rows cust d)))"
proof -
  let ?k = "\<lambda>r. (Desc (ro_micros r), Desc (collate env (ro_uid r)))"
  have "inj_on ro_uid (set (t_orders d))" using assms(2) by (simp add: distinct_map)
  then have "inj_on ?k (set (t_orders d))"
    using assms(1) by (auto simp: inj_on_def)
  then have "inj_on ?k (set (sort_key (\<lambda>r. order_rank env n (ro_uid r)) (customer_rows cust d)))"
    by (rule inj_on_subset) (auto simp: customer_rows_def)
  then show ?thesis
    unfolding customer_page_def customer_rows_def [symmetric]
    by (subst sort_key_total [where ys = "customer_rows cust d"]) simp_all
qed

lemma List_uids:
  assumes "db_inv (pg_db s)" and "ListByCustomer (calm env) cust limit offset s = (Inr ords, s1)"
    and "inj (collate env)"
  shows "pg_db s1 = pg_db s \<and> map OrderUID (slice_list ords) = map ro_uid (take (eff_limit limit) (drop (eff_offset offset)
    (sort_key (\<lambda>r. (Desc (ro_micros r), Desc (collate env (ro_uid r)))) (customer_rows cust (pg_db s)))))"
proof -
  obtain its where db: "pg_db s1 = pg_db s" and ords: "ords = Some (map (page_order its (pg_db s))
      (customer_page (calm env) (pg_n s) cust (eff_limit limit) (eff_offset offset) (pg_db s)))"
    by (rule List_result [OF assms(1,2)]) blast
  have "distinct (map ro_uid (t_orders (pg_db s)))" using assms(1) by (simp add: db_inv_def keys_ok_def)
  then show ?thesis
    using assms(3) customer_page_scan [of "calm env" "pg_db s" "pg_n s" cust "eff_limit limit" "eff_offset offset"]
    by (simp add: db ords comp_def)
qed

text \<open>C26: consecutive pages fit together: the page at \<open>offset\<close> followed by the page at
  \<open>offset + limit\<close> lists the orders of the page of twice the limit, in the same order, without
  gaps or repetitions.\<close>
theorem List_pages_concatenate:
  assumes "db_inv (pg_db s)" and "inj (collate env)"
    and "0 < sint limit" "sint limit2 = 2 * sint limit"
    and "0 \<le> sint offset" "sint offset2 = sint offset + sint limit"
    and "ListByCustomer (calm env) cust limit offset s = (Inr page1, s1)"
    and "ListByCustomer (calm env) cust limit offset2 s1 = (Inr page2, s2)"
    and "ListByCustomer (calm env) cust limit2 offset s2 = (Inr both, s3)"
  shows "map OrderUID (slice_list page1) @ map OrderUID (slice_list page2) =
    map OrderUID (slice_list both)"
proof -
  have lim: "eff_limit limit = nat (sint limit)" "eff_limit limit2 = nat (sint limit) + nat (sint limit)"
    "eff_offset offset2 = nat (sint limit) + nat (sint offset)" "eff_offset offset = nat (sint offset)"
    using assms(3-6) by (simp_all add: eff_limit_def eff_offset_def)
  note u1 = List_uids [OF assms(1,7,2)]
  then have inv1: "db_inv (pg_db s1)" using assms(1) by simp
  note u2 = List_uids [OF inv1 assms(8,2)]
  then have inv2: "db_inv (pg_db s2)" using inv1 by simp
  note u3 = List_uids [OF inv2 assms(9,2)]
  show ?thesis
    using u1 u2 u3 by (simp add: lim take_add)
qed

lemma List_pages_concatenate_witness:
  "\<exists>page1 page2 both s1 s2.
     ListByCustomer (calm healthy) ''cust'' 1 0 two_orders = (Inr page1, s1) \<and>
     ListByCustomer (calm healthy) ''cust'' 1 1 s1 = (Inr page2, s2) \<and>
     fst (ListByCustomer (calm healthy) ''cust'' 2 0 s2) = Inr both \<and>
     map OrderUID (slice_list page1) @ map OrderUID (slice_list page2) = map OrderUID (slice_list both)"
proof -
  let ?go = "\<lambda>limit offset. ListByCustomer (calm healthy) ''cust'' limit offset"
  let ?s1 = "snd (?go 1 0 two_orders)" and ?s2 = "snd (?go 1 1 (snd (?go 1 0 two_orders)))"
  have ok: "\<not> isl (fst (?go 1 0 two_orders))" "\<not> isl (fst (?go 1 1 ?s1))" "\<not> isl (fst (?go 2 0 ?s2))"
    by code_simp+
  obtain page1 where p1: "?go 1 0 two_orders = (Inr page1, ?s1)" by (rule answeredE [OF ok(1)])
  obtain page2 where p2: "?go 1 1 ?s1 = (Inr page2, ?s2)" by (rule answeredE [OF ok(2)])
  obtain both where p3: "?go 2 0 ?s2 = (Inr both, snd (?go 2 0 ?s2))" by (rule answeredE [OF ok(3)])
  note pages = p1 p2 p3
  have "inj (collate healthy)" by (simp add: healthy_def)
  from List_pages_concatenate [OF db_inv_two_orders this _ _ _ _ pages]
  have "map OrderUID (slice_list page1) @ map OrderUID (slice_list page2) = map OrderUID (slice_list both)"
    by simp
  moreover have "fst (?go 2 0 ?s2) = Inr both" by (subst p3) simp
  ultimately show ?thesis using p1 p2 by (intro exI conjI)
qed

section \<open>The last orders\<close>

lemma fetch_orders_result:
  assumes "fetch_orders (calm env) uids acc s = (Inr result, s1)"
    and "\<forall>uid\<in>set uids. db_view (pg_db s) uid \<noteq> None"
  shows "pg_db s1 = pg_db s \<and> (\<exists>ords. result = acc @ ords \<and>
    list_all2 (\<lambda>uid ord. rel_option same_items (Some ord) (db_view (pg_db s) uid)) uids ords)"
  using assms
proof (induction uids arbitrary: acc s)
  case (Cons uid uids)
  obtain r s2 where get: "GetByUID (calm env) uid s = (r, s2)" by (cases "GetByUID (calm env) uid s")
  then obtain p where r: "r = Inr p" using Cons.prems(1) by (cases r) simp_all
  have rel: "rel_option same_items p (db_view (pg_db s) uid)"
    using GetByUID_result get r by simp
  then obtain ord where p: "p = Some ord" using Cons.prems(2) by (cases p) auto
  have db: "pg_db s2 = pg_db s" using GetByUID_db [of env uid s] get by simp
  have "fetch_orders (calm env) uids (acc @ [ord]) s2 = (Inr result, s1)"
    using Cons.prems(1) get r p by simp
  from Cons.IH [OF this] Cons.prems(2) obtain ords where "pg_db s1 = pg_db s2" "result = acc @ [ord] @ ords"
    "list_all2 (\<lambda>uid ord. rel_option same_items (Some ord) (db_view (pg_db s2) uid)) uids ords"
    by (auto simp: db)
  then show ?case using rel p db by (intro conjI exI [of _ "ord # ords"]) simp_all
qed simp

lemma LastN_result:
  assumes "LastN (calm env) n s = (Inr ords, s1)" and "0 < sint n"
  shows "pg_db s1 = pg_db s \<and>
    list_all2 (\<lambda>uid ord. rel_option same_items (Some ord) (db_view (pg_db s) uid))
      (last_uids (calm env) (pg_n s) (nat (sint n)) (pg_db s)) (slice_list ords)"
proof -
  let ?uids = "last_uids (calm env) (pg_n s) (nat (sint n)) (pg_db s)"
  obtain result where fetch: "fetch_orders (calm env) ?uids [] \<lparr>pg_db = pg_db s, pg_n = Suc (pg_n s)\<rparr> = (Inr result, s1)"
    and ords: "ords = append_nil result"
    using assms unfolding LastN_def
    by (auto simp: select_Inr delivered_ok delivered_def split: sum.splits option.splits prod.splits if_splits)
  have "db_view (pg_db s) uid \<noteq> None" if "uid \<in> set ?uids" for uid
    using that by (auto simp: last_uids_def db_view_def find_None_iff dest!: in_set_takeD)
  then show ?thesis
    using fetch_orders_result [OF fetch] by (auto simp: ords)
qed

lemma same_items_date: "same_items a b \<Longrightarrow> DateCreated a = DateCreated b"
  by (auto simp: same_items_def dest: arg_cong [where f = DateCreated])

lemma view_date:
  assumes "keys_ok d" and "r \<in> set (t_orders d)" and "rel_option same_items (Some ord) (db_view d (ro_uid r))"
  shows "DateCreated ord = of_micros (ro_micros r)"
  using assms(3) find_row [OF assms(1,2)]
  by (auto simp: db_view_def with_parts_def base_order_def dest!: same_items_date)

text \<open>\<open>LastN\<close> returns the newest orders first: the dates of its result are the \<open>n\<close> greatest dates
  of all orders, in descending order, and \<open>nil\<close> when \<open>n\<close> is not positive.\<close>
theorem LastN_is_newest:
  assumes "db_inv (pg_db s)" and "LastN (calm env) n s = (Inr ords, s1)"
  shows "map DateCreated (slice_list ords) =
    map of_micros (take (nat (sint n)) (rev (sort (map ro_micros (t_orders (pg_db s)))))) \<and>
    (sint n \<le> 0 \<longrightarrow> ords = None)"
proof (cases "0 < sint n")
  case True
  let ?rows = "take (nat (sint n)) (sort_key (\<lambda>r. Desc (ro_micros r))
      (sort_key (\<lambda>r. order_rank (calm env) (pg_n s) (ro_uid r)) (t_orders (pg_db s))))"
  have "list_all2 (\<lambda>r ord. rel_option same_items (Some ord) (db_view (pg_db s) (ro_uid r))) ?rows (slice_list ords)"
    using LastN_result [OF assms(2) True] by (simp only: last_uids_def list.rel_map)
  then have dates: "list_all2 (\<lambda>r ord. of_micros (ro_micros r) = DateCreated ord) ?rows (slice_list ords)"
    using assms(1) view_date [of "pg_db s"]
    by (elim list.rel_mono_strong) (force simp: db_inv_def dest: in_set_takeD)
  have "map (\<lambda>r. of_micros (ro_micros r)) ?rows = map DateCreated (slice_list ords)"
  proof -
    have "list_all2 (=) (map (\<lambda>r. of_micros (ro_micros r)) xs) (map DateCreated ys)"
      if "list_all2 (\<lambda>r ord. of_micros (ro_micros r) = DateCreated ord) xs ys" for xs ys
      using that by (simp add: list.rel_map)
    then show ?thesis
      using dates by (simp only: list.rel_eq)
  qed
  moreover have "map ro_micros ?rows = take (nat (sint n)) (rev (sort (map ro_micros (t_orders (pg_db s)))))"
  proof -
    have "map ro_micros (sort_key (\<lambda>r. Desc (ro_micros r)) xs) = rev (sort (map ro_micros xs))"
      for xs :: "orders_row list"
      by (rule map_sort_desc) (simp add: less_eq_desc_def)
    moreover have "sort (map ro_micros (sort_key k xs)) = sort (map ro_micros xs)"
      for k :: "orders_row \<Rightarrow> nat" and xs
      by (rule properties_for_sort) simp_all
    ultimately show ?thesis by (simp add: take_map [symmetric])
  qed
  ultimately show ?thesis using True by (metis (no_types, lifting) map_map comp_def leD map_cong)
next
  case False
  then show ?thesis using assms(2) by (auto simp: LastN_def)
qed

lemma LastN_is_newest_witness:
  "\<exists>ords. fst (LastN (calm healthy) 1 two_orders) = Inr ords \<and>
     map DateCreated (slice_list ords) = [65 * 10 ^ 18]"
proof -
  have "(case fst (LastN (calm healthy) 1 two_orders) of Inl _ \<Rightarrow> False | Inr _ \<Rightarrow> True)" by code_simp
  then obtain ords s1 where run: "LastN (calm healthy) 1 two_orders = (Inr ords, s1)"
    by (cases "LastN (calm healthy) 1 two_orders") (auto split: sum.splits)
  have dates: "map ro_micros (t_orders (pg_db two_orders)) = [64 * 10 ^ 15, 65 * 10 ^ 15]" by code_simp
  from LastN_is_newest [OF db_inv_two_orders run] have "map DateCreated (slice_list ords) = [65 * 10 ^ 18]"
    unfolding dates by (simp add: of_micros_def)
  with run show ?thesis by (intro exI conjI) simp_all
qed

end
