(* ===== verification/Repo_Port.thy ===== *)
theory Repo_Port
  imports Repo_List
begin

text \<open>
  The PostgreSQL repository as an \<open>OrderRepository\<close>: it keeps the contract of \<open>Ports\<close> as long as
  no other session writes, with \<open>pg_same\<close> as what storing may change of an order.
\<close>

text \<open>
  The order of the items, \<open>nil\<close> against empty items, the part of the date below a microsecond,
  and the transaction of the payment, which an update does not touch.
\<close>

definition pg_core :: "order \<Rightarrow> order \<times> item multiset" where
  "pg_core ord =
     (ord\<lparr>Payment := (Payment ord)\<lparr>pTransaction := []\<rparr>, Items := None,
          DateCreated := of_micros (to_micros (DateCreated ord))\<rparr>, mset (item_list ord))"

definition pg_same :: "order \<Rightarrow> order \<Rightarrow> bool" where
  "pg_same a b \<longleftrightarrow> pg_core a = pg_core b"

definition pg_ok :: "pg \<Rightarrow> bool" where
  "pg_ok s = db_inv (pg_db s)"

definition pg_view :: "pg \<Rightarrow> string \<Rightarrow> order option" where
  "pg_view s = db_view (pg_db s)"

lemma pg_same_kept: "pg_same ord (kept d ord)"
  by (simp add: pg_same_def pg_core_def kept_def to_micros_def of_micros_def)

lemma pg_same_clone: "pg_same ord (clone_of ord)"
  by (simp add: pg_same_def pg_core_def clone_of_eq append_nil_def split: option.split)

lemma pg_same_uid: "pg_same a b \<Longrightarrow> OrderUID a = OrderUID b"
  by (auto simp: pg_same_def pg_core_def dest!: arg_cong [where f = OrderUID])

lemma same_items_pg_same: "same_items a b \<Longrightarrow> pg_same a b"
proof -
  assume ab: "same_items a b"
  define g where "g y = y\<lparr>Payment := (Payment y)\<lparr>pTransaction := []\<rparr>,
      DateCreated := of_micros (to_micros (DateCreated y))\<rparr>" for y :: order
  have "pg_core x = (g (x\<lparr>Items := None\<rparr>), mset (item_list x))" for x
    by (simp add: pg_core_def g_def)
  then show ?thesis using ab by (simp add: pg_same_def same_items_def)
qed

lemma rel_same_items_pg_same: "rel_option same_items p v \<Longrightarrow> rel_option pg_same p v"
  by (erule option.rel_mono_strong) (rule same_items_pg_same)

lemma pg_port_simps [port_defs]:
  "rp_Save (pg_port env) = Save env" "rp_GetByUID (pg_port env) = GetByUID env"
  "rp_ListByCustomer (pg_port env) = ListByCustomer env" "rp_LastN (pg_port env) = LastN env"
  by (simp_all add: pg_port_def)

lemma Save_view:
  assumes "Save (calm env) (Some ord) s = (res, s1)"
  shows "(res = None \<longrightarrow> db_view (pg_db s1) = (db_view (pg_db s))(OrderUID ord \<mapsto> kept (pg_db s) ord)) \<and>
    (db_view (pg_db s1) = db_view (pg_db s) \<or>
     db_view (pg_db s1) = (db_view (pg_db s))(OrderUID ord \<mapsto> kept (pg_db s) ord))"
proof (cases res)
  case None
  then show ?thesis using assms by (simp add: Save_ok_iff view_simps del: save_db_simps)
next
  case (Some err)
  then have "Save (calm env) (Some ord) s = (Some err, s1)" using assms by simp
  then show ?thesis
    by (cases rule: Save_error_cases) (simp_all add: Some view_simps del: save_db_simps)
qed

lemma select_then:
  assumes "\<And>x s1. pg_db s1 = pg_db s \<Longrightarrow> pg_db (snd (K x s1)) = d" and "pg_db s = d"
  shows "pg_db (snd (case select (calm env) label texts f s of
      (Inl err, s1) \<Rightarrow> (Inl err, s1) | (Inr x, s1) \<Rightarrow> K x s1)) = d"
  using assms select_db by (fastforce split: prod.split sum.split)

lemma delivered_then:
  assumes "\<And>xs. pg_db (snd (K xs)) = d" and "\<And>err. pg_db (snd (L err)) = d"
  shows "pg_db (snd (case delivered env n rows of (_, Some err) \<Rightarrow> L err | (xs, None) \<Rightarrow> K xs)) = d"
  using assms by (simp split: prod.split option.split)

lemma if_then: "pg_db (snd a) = d \<Longrightarrow> pg_db (snd b) = d \<Longrightarrow> pg_db (snd (if c then a else b)) = d"
  by simp

lemma List_db: "pg_db (snd (ListByCustomer (calm env) cust limit offset s)) = pg_db s"
  unfolding ListByCustomer_def Let_def
  by (intro select_then delivered_then if_then) simp_all

lemma fetch_db: "pg_db (snd (fetch_orders (calm env) uids acc s)) = pg_db s"
proof (induction uids arbitrary: acc s)
  case (Cons uid uids)
  then show ?case
    using GetByUID_db [of env uid s] by (auto split: prod.split sum.split option.split)
qed simp

lemma LastN_db: "pg_db (snd (LastN (calm env) n s)) = pg_db s"
proof -
  have "pg_db s2 = pg_db s'" if "fetch_orders (calm env) uids acc s' = (r, s2)" for uids acc s' r s2
    using fetch_db [of env uids acc s'] that by simp
  then show ?thesis
    unfolding LastN_def
    by (auto simp: select_calm delivered_def split: option.split prod.split sum.split)
qed

lemma LastN_view:
  assumes "db_inv (pg_db s)" and "LastN (calm env) n s = (Inr ords, s1)" and "ord \<in> set (slice_list ords)"
  shows "rel_option pg_same (Some ord) (db_view (pg_db s) (OrderUID ord))"
proof (cases "0 < sint n")
  case True
  obtain uid where "rel_option same_items (Some ord) (db_view (pg_db s) uid)"
    using LastN_result [OF assms(2) True] assms(3)
    by (auto simp: list_all2_conv_all_nth in_set_conv_nth)
  then obtain ord' where "db_view (pg_db s) uid = Some ord'" "same_items ord ord'"
    by (auto simp: option_rel_Some1)
  moreover from this have "OrderUID ord = uid"
    using db_view_key [OF assms(1)] pg_same_uid same_items_pg_same by metis
  ultimately show ?thesis by (simp add: same_items_pg_same)
next
  case False
  then show ?thesis using assms by (simp add: LastN_def)
qed

lemma List_length:
  assumes "db_inv (pg_db s)" and "ListByCustomer (calm env) cust limit offset s = (Inr ords, s1)"
    and "0 < sint limit"
  shows "int (length (slice_list ords)) \<le> sint limit"
proof -
  have len: "length (customer_page env' n cust (eff_limit limit) k d) \<le> eff_limit limit" for env' n k d
    by (simp add: customer_page_def)
  have "length (slice_list ords) \<le> eff_limit limit"
    by (rule List_result [OF assms(1,2)]) (simp add: len)
  then show ?thesis using assms(3) by (simp add: eff_limit_def)
qed

interpretation pgr: order_repository pg_ok pg_view "pg_port (calm env)" pg_same for env
proof
  fix s s1 :: pg and uid cust ord err p ords a b c and limit offset n :: goint
  show "pg_ok s \<Longrightarrow> pg_view s uid = Some ord \<Longrightarrow> OrderUID ord = uid \<and> uid \<noteq> []"
    by (simp add: pg_ok_def pg_view_def db_view_key)
  show "pg_same a a" "pg_same a b \<Longrightarrow> pg_same b a" "pg_same a b \<Longrightarrow> pg_same b c \<Longrightarrow> pg_same a c"
    by (simp_all add: pg_same_def)
  show "pg_same a (clone_of a)" by (rule pg_same_clone)
  show "pg_same a b \<Longrightarrow> OrderUID a = OrderUID b" by (rule pg_same_uid)
  show "pg_ok s \<Longrightarrow> pg_ok (snd (rp_Save (pg_port (calm env)) p s))"
    by (simp add: pg_ok_def port_defs Save_db_inv)
  show "pg_ok s \<Longrightarrow> rp_Save (pg_port (calm env)) (Some ord) s = (None, s1) \<Longrightarrow>
      \<exists>ord'. pg_same ord ord' \<and> pg_view s1 = (pg_view s)(OrderUID ord \<mapsto> ord')"
    unfolding port_defs pg_view_def using Save_view [of env ord s None s1] pg_same_kept by blast
  show "pg_ok s \<Longrightarrow> rp_Save (pg_port (calm env)) (Some ord) s = (Some err, s1) \<Longrightarrow>
      pg_view s1 = pg_view s \<or> (\<exists>ord'. pg_same ord ord' \<and> pg_view s1 = (pg_view s)(OrderUID ord \<mapsto> ord'))"
    unfolding port_defs pg_view_def using Save_view [of env ord s "Some err" s1] pg_same_kept by blast
  show "p = None \<or> (\<exists>ord. p = Some ord \<and> OrderUID ord = []) \<Longrightarrow>
      fst (rp_Save (pg_port (calm env)) p s) \<noteq> None \<and> snd (rp_Save (pg_port (calm env)) p s) = s"
    unfolding port_defs by (cases p) (auto simp: Save_def)
  show "pg_ok s \<Longrightarrow> pg_ok (snd (rp_GetByUID (pg_port (calm env)) uid s))"
    and "pg_ok s \<Longrightarrow> pg_view (snd (rp_GetByUID (pg_port (calm env)) uid s)) = pg_view s"
    by (simp_all add: pg_ok_def pg_view_def port_defs GetByUID_db)
  show "pg_ok s \<Longrightarrow> fst (rp_GetByUID (pg_port (calm env)) uid s) = Inr p \<Longrightarrow> rel_option pg_same p (pg_view s uid)"
    unfolding port_defs pg_view_def
    by (cases "GetByUID (calm env) uid s") (auto intro: rel_same_items_pg_same GetByUID_result)
  show "pg_ok s \<Longrightarrow> pg_ok (snd (rp_ListByCustomer (pg_port (calm env)) cust limit offset s))"
    and "pg_ok s \<Longrightarrow> pg_view (snd (rp_ListByCustomer (pg_port (calm env)) cust limit offset s)) = pg_view s"
    by (simp_all add: pg_ok_def pg_view_def port_defs List_db)
  show "pg_ok s \<Longrightarrow> fst (rp_ListByCustomer (pg_port (calm env)) cust limit offset s) = Inr ords \<Longrightarrow>
      ord \<in> set (slice_list ords) \<Longrightarrow> CustomerID ord = cust \<and> rel_option pg_same (Some ord) (pg_view s (OrderUID ord))"
    unfolding port_defs pg_view_def pg_ok_def
    by (cases "ListByCustomer (calm env) cust limit offset s")
      (auto dest: List_view intro: rel_same_items_pg_same)
  show "pg_ok s \<Longrightarrow> fst (rp_ListByCustomer (pg_port (calm env)) cust limit offset s) = Inr ords \<Longrightarrow>
      0 < sint limit \<Longrightarrow> int (length (slice_list ords)) \<le> sint limit"
    unfolding port_defs pg_ok_def
    by (cases "ListByCustomer (calm env) cust limit offset s") (auto dest: List_length)
  show "pg_ok s \<Longrightarrow> pg_ok (snd (rp_LastN (pg_port (calm env)) n s))"
    and "pg_ok s \<Longrightarrow> pg_view (snd (rp_LastN (pg_port (calm env)) n s)) = pg_view s"
    by (simp_all add: pg_ok_def pg_view_def port_defs LastN_db)
  show "pg_ok s \<Longrightarrow> fst (rp_LastN (pg_port (calm env)) n s) = Inr ords \<Longrightarrow> ord \<in> set (slice_list ords) \<Longrightarrow>
      rel_option pg_same (Some ord) (pg_view s (OrderUID ord))"
    unfolding port_defs pg_view_def pg_ok_def
    by (cases "LastN (calm env) n s") (auto dest: LastN_view)
qed

end
