(* ===== verification/Validate_Props.thy ===== *)
theory Validate_Props
  imports Validate
begin

text \<open>
  What the validator and the stream validation promise: the declarative meaning of a valid
  order and its equivalence with the checks, the class and the place of every error, and the
  result of a JSONL stream as a function of its lines.
\<close>

section \<open>Valid orders\<close>

definition valid_item :: "item \<Rightarrow> bool" where
  "valid_item it \<longleftrightarrow> iName it \<noteq> [] \<and> 0 \<le> sint (iPrice it) \<and> 0 \<le> sint (iTotalPrice it)"

definition valid_header :: "(string \<Rightarrow> bool) \<Rightarrow> order \<Rightarrow> bool" where
  "valid_header parse_ok ord \<longleftrightarrow>
     OrderUID ord \<noteq> [] \<and> TrackNumber ord \<noteq> [] \<and> Entry ord \<noteq> [] \<and>
     year_2000 \<le> DateCreated ord \<and>
     pTransaction (Payment ord) \<noteq> [] \<and> pCurrency (Payment ord) \<noteq> [] \<and>
     0 \<le> sint (pAmount (Payment ord)) \<and>
     dEmail (Delivery ord) \<noteq> [] \<and> parse_ok (dEmail (Delivery ord))"

definition valid_order :: "(string \<Rightarrow> bool) \<Rightarrow> order \<Rightarrow> bool" where
  "valid_order parse_ok ord \<longleftrightarrow>
     valid_header parse_ok ord \<and> item_list ord \<noteq> [] \<and> list_all valid_item (item_list ord)"

fun_cases validateItems_from_SomeE: "validateItems_from i its = Some err"

lemma invalid_neq_None [simp]: "invalid msg \<noteq> None" "None \<noteq> invalid msg"
  by (simp_all add: invalid_def)

lemma validateItems_from_None: "validateItems_from i its = None \<longleftrightarrow> list_all valid_item its"
  by (induction i its rule: validateItems_from.induct) (auto simp: valid_item_def)

text \<open>The first check an item fails.\<close>

definition bad_field :: "item \<Rightarrow> string" where
  "bad_field it =
     (if iName it = [] then ''name'' else if sint (iPrice it) < 0 then ''price'' else ''total_price'')"

lemma validateItems_from_first_bad:
  assumes "list_all valid_item xs" and "\<not> valid_item it"
  shows "validateItems_from i (xs @ it # ys) =
    invalid (''items['' @ itoa_nat (i + length xs) @ ''].'' @ bad_field it)"
  using assms
proof (induction xs arbitrary: i)
  case Nil
  then show ?case by (auto simp: valid_item_def bad_field_def)
next
  case (Cons x xs)
  then show ?case by (simp add: valid_item_def)
qed

lemma valid_header_checks:
  "valid_header parse_ok ord \<longleftrightarrow>
     validateCore (Some ord) = None \<and> validatePayment (Payment ord) = None \<and>
     validateDelivery parse_ok (Delivery ord) = None"
  by (auto simp: valid_header_def validateCore_def validatePayment_def validateDelivery_def
      year_2000_def)

lemma Validate_header:
  "valid_header parse_ok ord \<Longrightarrow> Validate parse_ok (Some ord) = validateItems (Items ord)"
  by (simp add: valid_header_checks Validate_def)

lemma Validate_sample: "uid \<noteq> [] \<Longrightarrow> Validate (\<lambda>_. True) (Some (sample_order uid)) = None"
  by (simp add: Validate_header valid_header_def validateItems_def valid_item_def sample_order_def
      zero_order_def sample_item_def zero_item_def year_2000_def)

lemma Validate_iff:
  "Validate parse_ok p = None \<longleftrightarrow> (\<exists>ord. p = Some ord \<and> valid_order parse_ok ord)"
proof (cases p)
  case None
  then show ?thesis by (simp add: Validate_def validateCore_def invalid_def)
next
  case (Some ord)
  show ?thesis
  proof (cases "valid_header parse_ok ord")
    case True
    then show ?thesis
      using Some by (simp add: Validate_header valid_order_def validateItems_def validateItems_from_None)
  next
    case False
    then have "Validate parse_ok (Some ord) \<noteq> None"
      by (auto simp: valid_header_checks Validate_def split: option.split)
    then show ?thesis using Some False by (simp add: valid_order_def)
  qed
qed

text \<open>C19: the validator accepts exactly the orders that are there, have the required fields,
  a creation date from 2000 on, a payment with a non-negative amount, an address that parses,
  and at least one item, every item named and with non-negative prices.\<close>
theorem Validate_accepts_valid_orders:
  "Validate parse_ok p = None \<longleftrightarrow> (\<exists>ord. p = Some ord \<and> valid_order parse_ok ord)"
  by (rule Validate_iff)

subsection \<open>Errors\<close>

definition invalid_class :: "goerror option \<Rightarrow> bool" where
  "invalid_class r \<longleftrightarrow> (\<forall>err. r = Some err \<longrightarrow> (\<exists>msg. err = Wrapf msg (Sentinel Validate_ErrInvalidOrder)))"

lemma invalid_class_simps [simp]: "invalid_class None" "invalid_class (invalid msg)"
  by (simp_all add: invalid_class_def invalid_def)

lemma invalid_class_items_from [simp]: "invalid_class (validateItems_from i its)"
  by (induction i its rule: validateItems_from.induct) simp_all

lemma invalid_class_items [simp]: "invalid_class (validateItems s)"
  by (simp add: validateItems_def)

lemma invalid_class_header [simp]:
  "invalid_class (validateCore p)" "invalid_class (validatePayment pay)"
  "invalid_class (validateDelivery parse_ok d)"
  by (simp_all add: validateCore_def validatePayment_def validateDelivery_def split: option.split)

lemma invalid_class_then:
  "invalid_class r \<Longrightarrow> invalid_class k \<Longrightarrow>
    invalid_class (case r of None \<Rightarrow> k | Some err \<Rightarrow> Some err)"
  by (cases r) simp_all

lemma invalid_class_Validate: "invalid_class (Validate parse_ok p)"
  unfolding Validate_def
  by (cases p) (auto intro!: invalid_class_then)

text \<open>every error of the validator wraps \<open>validate.ErrInvalidOrder\<close>, which is how the consumer
  tells it from a temporary failure.\<close>
theorem Validate_errors_are_ErrInvalidOrder:
  "Validate parse_ok p = Some err \<Longrightarrow> errors_is err (Sentinel Validate_ErrInvalidOrder)"
  using invalid_class_Validate [of parse_ok p] by (auto simp: invalid_class_def)

lemma Validate_errors_are_ErrInvalidOrder_witness:
  "errors_is (Wrapf ''payment.amount'' (Sentinel Validate_ErrInvalidOrder)) (Sentinel Validate_ErrInvalidOrder)"
proof (rule Validate_errors_are_ErrInvalidOrder)
  show "Validate (\<lambda>_. True)
      (Some (sample_order ''o1''\<lparr>Payment := Payment (sample_order ''o1'')\<lparr>pAmount := - 1\<rparr>\<rparr>)) =
    Some (Wrapf ''payment.amount'' (Sentinel Validate_ErrInvalidOrder))"
    by code_simp
qed

text \<open>in an order whose other parts are valid, the error names the position of the first
  invalid item and its first invalid field.\<close>
theorem Validate_reports_first_bad_item:
  assumes "valid_header parse_ok ord" and "item_list ord = xs @ it # ys"
    and "list_all valid_item xs" and "\<not> valid_item it"
  shows "Validate parse_ok (Some ord) =
    invalid (''items['' @ itoa_nat (length xs) @ ''].'' @ bad_field it)"
  using assms validateItems_from_first_bad [of xs it 0 ys]
  by (simp add: Validate_header validateItems_def)

lemma Validate_reports_first_bad_item_witness:
  "Validate (\<lambda>_. True)
     (Some (sample_order ''o1''\<lparr>Items := Some [sample_item, sample_item\<lparr>iPrice := - 5\<rparr>, zero_item]\<rparr>)) =
   invalid ''items[1].price''"
proof -
  let ?ord = "sample_order ''o1''\<lparr>Items := Some [sample_item, sample_item\<lparr>iPrice := - 5\<rparr>, zero_item]\<rparr>"
  have "valid_header (\<lambda>_. True) ?ord" "list_all valid_item [sample_item]"
    "\<not> valid_item (sample_item\<lparr>iPrice := - 5\<rparr>)"
    by code_simp+
  from Validate_reports_first_bad_item [OF this(1) _ this(2,3), of "[zero_item]"]
  have "Validate (\<lambda>_. True) (Some ?ord) =
      invalid (''items['' @ itoa_nat 1 @ ''].'' @ bad_field (sample_item\<lparr>iPrice := - 5\<rparr>))"
    by simp
  also have "\<dots> = invalid ''items[1].price''" by code_simp
  finally show ?thesis .
qed

text \<open>The validator keeps the contract of its port.\<close>

interpretation val: order_validator "Validate parse_ok" for parse_ok
proof
  fix ord p err
  show "Validate parse_ok None \<noteq> None" by (simp add: Validate_iff)
  show "Validate parse_ok (Some ord) = None \<Longrightarrow> OrderUID ord \<noteq> []"
    by (simp add: Validate_iff valid_order_def valid_header_def)
  show "Validate parse_ok p = Some err \<Longrightarrow> errors_is err (Sentinel Validate_ErrInvalidOrder)"
    using invalid_class_Validate [of parse_ok p] by (auto simp: invalid_class_def)
qed

section \<open>JSONL streams\<close>

text \<open>A writer that keeps everything it is given, and never fails.\<close>

definition buffer :: "string writer" where
  "buffer s out = (None, out @ s)"

definition line_order :: "json_lib \<Rightarrow> validator \<Rightarrow> string \<Rightarrow> order option" where
  "line_order js validator line =
     (case ValidateOrderFromJSON js validator line of Inl err \<Rightarrow> None | Inr ord \<Rightarrow> Some ord)"

text \<open>The lines that are not blank, and the orders of those that are accepted.\<close>

definition doc_lines :: "string list \<Rightarrow> string list" where
  "doc_lines = filter (\<lambda>l. trim_space l \<noteq> [])"

definition accepted :: "json_lib \<Rightarrow> validator \<Rightarrow> string list \<Rightarrow> order list" where
  "accepted js validator lines = List.map_filter (line_order js validator) (doc_lines lines)"

definition jsonl_out :: "json_lib \<Rightarrow> order list \<Rightarrow> string" where
  "jsonl_out js ords = concat (map (\<lambda>ord. json_Marshal js ord @ [LF]) ords)"

lemma accepted_Cons:
  "accepted js validator (l # ls) =
     (if trim_space l = [] then accepted js validator ls
      else case ValidateOrderFromJSON js validator l of
        Inl err \<Rightarrow> accepted js validator ls
      | Inr ord \<Rightarrow> ord # accepted js validator ls)"
  by (simp add: accepted_def doc_lines_def line_order_def List.map_filter_def split: sum.split)

lemma length_accepted_le: "length (accepted js validator lines) \<le> length (doc_lines lines)"
  by (simp add: accepted_def List.map_filter_def)

lemma jsonl_loop_buffer:
  "jsonl_loop js validator buffer lines \<lparr>ValidLinesCount = v, InvalidLinesCount = i\<rparr> out =
    ((\<lparr>ValidLinesCount = v + length (accepted js validator lines),
       InvalidLinesCount = i + (length (doc_lines lines) - length (accepted js validator lines))\<rparr>, None),
     out @ jsonl_out js (accepted js validator lines))"
proof (induction lines arbitrary: v i out)
  case Nil
  then show ?case by (simp add: accepted_def doc_lines_def jsonl_out_def List.map_filter_def)
next
  case (Cons l ls)
  then show ?case
    using length_accepted_le [of js validator ls]
    by (simp add: accepted_Cons doc_lines_def jsonl_out_def buffer_def Suc_diff_le split: sum.split)
qed

lemma JSONL_stream_buffer:
  "ValidateJSONLStream js validator buffer inp [] =
    (let lines = scan_tokens inp; good = accepted js validator lines
     in ((\<lparr>ValidLinesCount = length good, InvalidLinesCount = length (doc_lines lines) - length good\<rparr>,
          map_option (Wrapf ''scan'') (scan_err inp)),
         jsonl_out js good))"
  by (simp add: ValidateJSONLStream_def jsonl_loop_buffer Let_def split: option.split)

text \<open>over a writer that does not fail, a JSONL stream yields the accepted orders, re-marshalled
  one per line in their order; the two counters partition the non-blank lines; and an error
  is reported exactly when the scanner stopped on one.\<close>
theorem JSONL_stream_result:
  "ValidateJSONLStream js validator buffer inp [] =
    (let lines = scan_tokens inp; good = accepted js validator lines
     in ((\<lparr>ValidLinesCount = length good, InvalidLinesCount = length (doc_lines lines) - length good\<rparr>,
          map_option (Wrapf ''scan'') (scan_err inp)),
         jsonl_out js good))"
  by (rule JSONL_stream_buffer)

subsection \<open>Reading the output back\<close>

lemma raw_lines_Nil [simp]: "raw_lines [] = []"
  by (simp add: raw_lines.simps)

lemma raw_lines_line: "LF \<notin> set l \<Longrightarrow> raw_lines (l @ LF # s) = l # raw_lines s"
proof -
  assume "LF \<notin> set l"
  then have "takeWhile (\<lambda>ch. ch \<noteq> LF) (l @ LF # s) = l"
    "dropWhile (\<lambda>ch. ch \<noteq> LF) (l @ LF # s) = LF # s"
    by (induction l) auto
  then show ?thesis by (subst raw_lines.simps) simp
qed

lemma raw_lines_jsonl_out:
  "\<forall>ord\<in>set ords. LF \<notin> set (json_Marshal js ord) \<Longrightarrow>
    raw_lines (jsonl_out js ords) = map (json_Marshal js) ords"
  by (induction ords) (simp_all add: jsonl_out_def raw_lines_line)

lemma strip_front_id: "list_all (\<lambda>w. w = [] \<or> \<not> starts_with w s) ws \<Longrightarrow> strip_front ws s = s"
proof -
  assume "list_all (\<lambda>w. w = [] \<or> \<not> starts_with w s) ws"
  then have "find (\<lambda>w. w \<noteq> [] \<and> starts_with w s) ws = None"
    by (auto simp: find_None_iff list_all_iff)
  then show ?thesis by (subst strip_front.simps) simp
qed

lemma braces_are_not_spaces:
  "list_all (\<lambda>w. w \<noteq> [] \<and> hd w \<noteq> CHR ''{'') space_encodings"
  "list_all (\<lambda>w. w \<noteq> [] \<and> hd w \<noteq> CHR ''}'') (map rev space_encodings)"
  by (simp_all add: space_encodings_def)

lemma strip_front_hd:
  assumes "list_all (\<lambda>w. w \<noteq> [] \<and> hd w \<noteq> ch) ws"
  shows "strip_front ws (ch # s) = ch # s"
proof (rule strip_front_id)
  have "\<not> starts_with w (ch # s)" if "w \<noteq> [] \<and> hd w \<noteq> ch" for w
    using that by (cases w) auto
  then show "list_all (\<lambda>w. w = [] \<or> \<not> starts_with w (ch # s)) ws"
    using assms by (simp add: list_all_iff)
qed

lemma trim_space_braces: "trim_space (CHR ''{'' # s @ ''}'') = CHR ''{'' # s @ ''}''"
  using strip_front_hd [OF braces_are_not_spaces(1)] strip_front_hd [OF braces_are_not_spaces(2)]
  by (simp add: trim_space_def)

text \<open>
  What \<open>encoding/json\<close> documents of an order it has decoded: \<open>Marshal\<close> writes one object
  without line breaks, and decoding this gives the order back and leaves nothing.
\<close>

definition marshal_ok :: "json_lib \<Rightarrow> order \<Rightarrow> bool" where
  "marshal_ok js ord \<longleftrightarrow>
     (\<exists>s. json_Marshal js ord = CHR ''{'' # s @ ''}'') \<and> LF \<notin> set (json_Marshal js ord) \<and>
     decode_order js (json_Marshal js ord) = Inr (ord, []) \<and>
     decode_rest js [] = Some (Sentinel IO_EOF)"

lemma ValidateOrderFromJSON_valid:
  "ValidateOrderFromJSON js validator raw = Inr ord \<Longrightarrow> validator (Some ord) = None"
  by (simp add: ValidateOrderFromJSON_def split: sum.splits prod.splits if_splits option.splits)

lemma accepted_valid: "ord \<in> set (accepted js validator lines) \<Longrightarrow> validator (Some ord) = None"
  by (auto simp: accepted_def List.map_filter_def line_order_def
      dest: ValidateOrderFromJSON_valid split: sum.splits)

lemma accepted_marshalled:
  assumes "\<forall>ord\<in>set ords. marshal_ok js ord \<and> validator (Some ord) = None"
  shows "accepted js validator (map (json_Marshal js) ords) = ords \<and>
    doc_lines (map (json_Marshal js) ords) = map (json_Marshal js) ords"
  using assms
proof (induction ords)
  case (Cons ord ords)
  obtain s where "json_Marshal js ord = CHR ''{'' # s @ ''}''"
    using Cons.prems by (auto simp: marshal_ok_def)
  then have "trim_space (json_Marshal js ord) \<noteq> []" by (simp add: trim_space_braces)
  moreover have "ValidateOrderFromJSON js validator (json_Marshal js ord) = Inr ord"
    using Cons.prems by (simp add: marshal_ok_def ValidateOrderFromJSON_def)
  ultimately show ?case using Cons by (simp add: accepted_Cons doc_lines_def)
qed (simp_all add: accepted_def doc_lines_def List.map_filter_def)

lemma drop_cr_marshalled: "marshal_ok js ord \<Longrightarrow> drop_cr (json_Marshal js ord) = json_Marshal js ord"
  by (auto simp: marshal_ok_def drop_cr_def)


text \<open>A small codec that writes nothing of an order but its identifier.\<close>

definition uid_json :: json_lib where
  "uid_json =
     \<lparr>decode_order = (\<lambda>s. if s \<noteq> [] \<and> hd s = CHR ''{'' \<and> last s = CHR ''}''
                        then Inr (sample_order (butlast (tl s)), [])
                        else Inl (Errorf ''unexpected character'')),
      decode_rest = (\<lambda>s. if s = [] then Some (Sentinel IO_EOF) else None),
      json_Marshal = (\<lambda>ord. CHR ''{'' # OrderUID ord @ ''}'')\<rparr>"

definition sample_lines :: input_stream where
  "sample_lines = \<lparr>in_data = ''{a}'' @ [CR, LF] @ ''  '' @ [LF] @ ''[x]'' @ [LF] @ ''{b}'', in_err = None\<rparr>"


section \<open>The command\<close>

lemma validate_orders_main_file:
  assumes "path \<noteq> []" and "open_file path = Inr file" and "in_err file = None"
  shows "validate_orders_main js parse_ok open_file buffer path fmt [] =
    (if resolve_format path fmt = ''json'' then
       (case ValidateOrderFromJSON js (Validate parse_ok) (in_data file) of
          Inl err \<Rightarrow> ((1, ''0 valid / 1 invalid'', Some err), [])
        | Inr ord \<Rightarrow> ((0, ''1 valid / 0 invalid'', None), jsonl_out js [ord]))
     else if resolve_format path fmt = ''jsonl'' then
       (let lines = scan_tokens file; good = accepted js (Validate parse_ok) lines
        in ((case scan_err file of
               Some err \<Rightarrow> (1, [], Some (Wrapf ''scan'' err))
             | None \<Rightarrow> (0, summary (length good) (length (doc_lines lines) - length good), None)),
            jsonl_out js good))
     else ((1, [], Some (Errorf (''unsupported format: '' @ resolve_format path fmt))), []))"
  using assms
  by (simp add: validate_orders_main_def ValidateFile_def Let_def JSONL_stream_buffer buffer_def
      jsonl_out_def split: sum.split option.split)

text \<open>C33: on a file that can be read, the command exits with 0 for a JSON document exactly when
  the order is accepted; for JSONL it exits with 0 whenever every line fits the scanner's
  buffer, however many lines are invalid, and the summary counts the two kinds.\<close>
theorem validate_orders_exit_status:
  assumes "path \<noteq> []" and "open_file path = Inr file" and "in_err file = None"
    and "validate_orders_main js parse_ok open_file buffer path fmt [] = ((status, sm, err), out)"
  shows "(resolve_format path fmt = ''json'' \<longrightarrow>
      (status = 0 \<longleftrightarrow> (\<exists>ord. ValidateOrderFromJSON js (Validate parse_ok) (in_data file) = Inr ord \<and>
         valid_order parse_ok ord \<and> out = json_Marshal js ord @ [LF]))) \<and>
    (resolve_format path fmt = ''jsonl'' \<longrightarrow>
      (status = 0 \<longleftrightarrow> list_all (\<lambda>l. length l < max_token) (raw_lines (in_data file))) \<and>
      (status = 0 \<longrightarrow> (\<exists>v i. sm = summary v i \<and> v + i = length (doc_lines (scan_tokens file)) \<and>
         v = length (accepted js (Validate parse_ok) (scan_tokens file)))))"
proof -
  note run = assms(4) [unfolded validate_orders_main_file [where open_file = open_file, OF assms(1-3)]]
  have "resolve_format path fmt = ''json'' \<longrightarrow>
      (status = 0 \<longleftrightarrow> (\<exists>ord. ValidateOrderFromJSON js (Validate parse_ok) (in_data file) = Inr ord \<and>
         valid_order parse_ok ord \<and> out = json_Marshal js ord @ [LF]))"
    using run by (auto simp: jsonl_out_def Validate_iff split: sum.splits dest: ValidateOrderFromJSON_valid)
  moreover have "resolve_format path fmt = ''jsonl'' \<longrightarrow>
      (status = 0 \<longleftrightarrow> list_all (\<lambda>l. length l < max_token) (raw_lines (in_data file)))"
    using run assms(3) by (auto simp: Let_def scan_err_def split: if_splits)
  moreover have "resolve_format path fmt = ''jsonl'' \<longrightarrow> status = 0 \<longrightarrow>
      sm = summary (length (accepted js (Validate parse_ok) (scan_tokens file)))
        (length (doc_lines (scan_tokens file)) - length (accepted js (Validate parse_ok) (scan_tokens file)))"
    using run by (auto simp: Let_def split: option.splits)
  ultimately show ?thesis
    using length_accepted_le [of js "Validate parse_ok" "scan_tokens file"] by fastforce
qed

lemma validate_orders_exit_status_witness:
  "fst (fst (validate_orders_main uid_json (\<lambda>_. True) (\<lambda>_. Inr \<lparr>in_data = ''[x]'', in_err = None\<rparr>)
     buffer ''a.jsonl'' ''auto'' [])) = 0"
proof -
  let ?run = "validate_orders_main uid_json (\<lambda>_. True) (\<lambda>_. Inr \<lparr>in_data = ''[x]'', in_err = None\<rparr>)
     buffer ''a.jsonl'' ''auto'' []"
  have fmt: "resolve_format ''a.jsonl'' ''auto'' = ''jsonl''"
    and raw: "raw_lines ''[x]'' = [''[x]'']"
    by code_simp+
  obtain status sm err out where run: "?run = ((status, sm, err), out)" by (cases ?run) auto
  from validate_orders_exit_status [OF _ _ _ this] have "status = 0"
    by (simp add: fmt raw max_token_def)
  then show ?thesis by (simp add: run)
qed

end
