(* ===== verification/System.thy ===== *)
theory System
  imports Service Cache_Port Repo_Port Validate_Props
begin

text \<open>
  The service as \<open>internal/app/bootstrap.go\<close> wires it: the LRU cache, the PostgreSQL repository
  and the validator behind its ports, and what it guarantees over every history of requests.
\<close>

section \<open>The wired service\<close>

type_synonym app_state = "cache_state \<times> pg"

definition app_service ::
    "cache_env \<Rightarrow> pg_env \<Rightarrow> json_lib \<Rightarrow> (string \<Rightarrow> bool) \<Rightarrow> (cache_state, pg) order_service" where
  "app_service cenv env js parse_ok =
     \<lparr>svc_repo = pg_port env, svc_cache = lru_port cenv, svc_validator = Validate parse_ok, svc_json = js\<rparr>"

text \<open>A new cache, and a database with the schema and no rows.\<close>

definition app_start :: "goint \<Rightarrow> duration \<Rightarrow> app_state" where
  "app_start cap d = ((NewLRUCacheTTL cap d, 0), new_pg)"

interpretation app: service cache_ok cached "lru_port cenv" pg_ok pg_view "pg_port (calm env)" pg_same
    "Validate parse_ok" "app_service cenv (calm env) js parse_ok" for cenv env js parse_ok
  by unfold_locales (simp_all add: app_service_def)

lemma app_start_inv: "app.svc_inv (app_start cap d)"
  by (simp add: app.svc_inv_def app_start_def cache_ok_def pg_ok_def new_pg_def New_inv)

lemma app_start_coherent: "app.coherent (app_start cap d)"
  by (simp add: app.coherent_def app_start_def cached_def stored_New)

text \<open>When no answer to a commit is lost, a save that reports an error has changed nothing.\<close>

lemma Save_error_definite:
  assumes "\<forall>n. \<not> commit_lost env n" and "Save (calm env) (Some ord) s = (Some err, s1)"
  shows "pg_db s1 = pg_db s"
  using assms(2) by (cases rule: Save_error_cases) (simp_all add: assms(1))

lemma SaveFromMessage_error_definite:
  assumes "\<forall>n. \<not> commit_lost env n" and "app.svc_inv s"
    and "fst (SaveFromMessage (app_service cenv (calm env) js parse_ok) raw s) \<noteq> None"
  shows "pg_view (snd (snd (SaveFromMessage (app_service cenv (calm env) js parse_ok) raw s))) = pg_view (snd s)"
proof -
  obtain c r where s: "s = (c, r)" by (cases s)
  from assms(2) [unfolded s] show ?thesis
  proof (cases rule: app.SaveFromMessage_cases [where raw = raw and cenv = cenv and env = env and js = js and parse_ok = parse_ok])
    case (not_saved ord err r1)
    then have "pg_db r1 = pg_db r"
      using Save_error_definite [OF assms(1), of ord r err r1] by (simp add: port_defs)
    then show ?thesis using not_saved by (simp add: s pg_view_def)
  qed (use assms(3) in \<open>simp_all add: s\<close>)
qed

lemma app_saves_definite:
  assumes "\<forall>n. \<not> commit_lost env n" and "app.svc_inv s"
  shows "app.saves_definite cenv env js parse_ok ops s"
  using assms(2)
proof (induction ops arbitrary: s)
  case (Cons op ops)
  then show ?case
    using SaveFromMessage_error_definite [OF assms(1)] app.svc_step_inv
    by (auto split: svc_op.split)
qed simp

section \<open>Cache and database\<close>

text \<open>Every cached order is in the database, up to what storing an order changes.\<close>

definition cache_agrees :: "app_state \<Rightarrow> bool" where
  "cache_agrees s \<longleftrightarrow>
     (\<forall>uid ord. cached (fst s) uid = Some ord \<longrightarrow> rel_option pg_same (Some ord) (pg_view (snd s) uid))"

lemma coherent_agrees: "app.coherent s \<longleftrightarrow> cache_agrees s"
  by (auto simp: app.coherent_def cache_agrees_def option_rel_Some1)

lemma app_run_inv: "app.svc_inv (svc_run (app_service cenv (calm env) js parse_ok) ops (app_start cap d))"
  by (rule app.svc_run_inv [OF app_start_inv])

lemma app_run_coherent:
  assumes "\<forall>n. \<not> commit_lost env n"
  shows "app.coherent (svc_run (app_service cenv (calm env) js parse_ok) ops (app_start cap d))"
  by (rule app.svc_run_coherent [OF app_start_inv app_start_coherent
        app_saves_definite [OF assms app_start_inv]])

text \<open>over every history of requests, with any failures of statements, reads and contexts, the
  cache never disagrees with the database: what is cached under a UID is what the database
  holds for it, as long as no other process writes and no answer to a commit is lost.\<close>
theorem cache_agrees_with_database:
  assumes "\<forall>n. \<not> commit_lost env n"
  shows "cache_agrees (svc_run (app_service cenv (calm env) js parse_ok) ops (app_start cap d))"
  using app_run_coherent [OF assms] by (simp only: coherent_agrees)

definition sample_cenv :: cache_env where
  "sample_cenv = \<lparr>ce_now = (\<lambda>n. int n), ce_done = (\<lambda>n. None)\<rparr>"

abbreviation sample_app :: "(cache_state, pg) order_service" where
  "sample_app \<equiv> app_service sample_cenv (calm healthy) uid_json (\<lambda>_. True)"

definition sample_history :: "svc_op list" where
  "sample_history = [Op_SaveFromMessage ''{a}'', Op_SaveFromMessage ''[x]'', Op_GetOrder ''a'']"

lemma cache_agrees_with_database_witness:
  "cached (fst (svc_run sample_app sample_history (app_start 2 0))) ''a'' = Some (sample_order ''a'') \<and>
   rel_option pg_same (Some (sample_order ''a''))
     (pg_view (snd (svc_run sample_app sample_history (app_start 2 0))) ''a'')"
proof -
  have "cached (fst (svc_run sample_app sample_history (app_start 2 0))) ''a'' = Some (sample_order ''a'')"
    by code_simp
  moreover have "cache_agrees (svc_run sample_app sample_history (app_start 2 0))"
    by (rule cache_agrees_with_database) (simp add: healthy_def)
  ultimately show ?thesis by (simp add: cache_agrees_def)
qed

text \<open>whatever the history, an answer of \<open>GetOrder\<close> without an error, from the cache or not, is the
  order that the database holds under the UID, or the absence of one.\<close>
theorem GetOrder_answers_from_database:
  assumes "\<forall>n. \<not> commit_lost env n"
    and "s = svc_run (app_service cenv (calm env) js parse_ok) ops (app_start cap d)"
    and "fst (GetOrder (app_service cenv (calm env) js parse_ok) uid s) = Inr p"
  shows "rel_option pg_same p (pg_view (snd s) uid)"
  using assms(2,3) app.GetOrder_answer [OF app_run_inv app_run_coherent [OF assms(1)]] by blast

lemma GetOrder_answers_from_database_witness:
  "rel_option pg_same (Some (sample_order ''a''))
     (pg_view (snd (svc_run sample_app [Op_SaveFromMessage ''{a}''] (app_start 2 0))) ''a'')"
proof (rule GetOrder_answers_from_database [OF _ refl])
  show "\<forall>n. \<not> commit_lost healthy n" by (simp add: healthy_def)
  show "fst (GetOrder sample_app ''a''
      (svc_run sample_app [Op_SaveFromMessage ''{a}''] (app_start 2 0))) = Inr (Some (sample_order ''a''))"
    by code_simp
qed

text \<open>a cache hit is answered without touching the database.\<close>
theorem GetOrder_hit_leaves_database:
  assumes "cache_inv c"
    and "snd (fst (LRU_Get c (ce_now cenv n) uid))"
  shows "\<exists>ord c1. GetOrder (app_service cenv env js parse_ok) uid ((c, n), r) = (Inr (Some ord), ((c1, Suc n), r)) \<and>
    stored c uid = Some ord"
proof -
  obtain p c1 where get: "LRU_Get c (ce_now cenv n) uid = ((p, True), c1)"
    using assms(2) by (cases "LRU_Get c (ce_now cenv n) uid"; cases "fst (LRU_Get c (ce_now cenv n) uid)") auto
  moreover from this obtain ord where "p = Some ord" "stored c uid = Some ord"
    using stored_Get(2,3) [OF assms(1), of "ce_now cenv n" uid] by auto
  ultimately show ?thesis by (simp add: GetOrder_def app_service_def lru_port_def)
qed

lemma GetOrder_hit_leaves_database_witness:
  "\<exists>ord c1. GetOrder sample_app ''A'' ((snd (LRU_Set (NewLRUCacheTTL 2 0) 0 (Some (sample_order ''A''))), 1), new_pg) =
     (Inr (Some ord), ((c1, 2), new_pg))"
proof -
  let ?c = "snd (LRU_Set (NewLRUCacheTTL 2 0) 0 (Some (sample_order ''A'')))"
  have "cache_inv ?c" by (intro inv_intros)
  moreover have "snd (fst (LRU_Get ?c (ce_now sample_cenv 1) ''A''))" by code_simp
  ultimately show ?thesis
    using GetOrder_hit_leaves_database [of ?c sample_cenv 1 "''A''" "calm healthy" uid_json "\<lambda>_. True" new_pg]
    by (auto simp: numeral_2_eq_2)
qed

section \<open>Messages\<close>



text \<open>The errors of \<open>Save\<close> come from a statement that failed or from the schema.\<close>

definition schema_errors :: "goerror set" where
  "schema_errors = {text_error, range_error, check_error, fk_error, unique_error,
     Errorf ''order is empty or order_uid is required'', Errorf ''customer_id is required''}"

lemma statement_errors:
  "insert_customer env cust d = Inl err \<Longrightarrow> err \<in> schema_errors"
  "upsert_order env ord d = Inl err \<Longrightarrow> err \<in> schema_errors"
  "upsert_delivery env uid del d = Inl err \<Longrightarrow> err \<in> schema_errors"
  "upsert_payment env uid pay d = Inl err \<Longrightarrow> err \<in> schema_errors"
  "delete_items uid d = Inl err \<Longrightarrow> err \<in> schema_errors"
  "copyItems env uid its d = Inl err \<Longrightarrow> err \<in> schema_errors"
  by (simp_all add: insert_customer_def upsert_order_def upsert_delivery_def upsert_payment_def
      delete_items_def copyItems_def schema_errors_def split: if_splits)

lemma run_tx_error:
  assumes "run_tx env n steps d = (Inl err, m)"
    and "\<And>label f d e. (label, f) \<in> set steps \<Longrightarrow> f d = Inl e \<Longrightarrow> e \<in> schema_errors"
  shows "\<exists>label e. err = Wrapf label e \<and> (e \<in> schema_errors \<or> (\<exists>k. fault env k = Some e))"
  using assms
proof (induction steps arbitrary: n d)
  case (Cons step steps)
  obtain label f where step: "step = (label, f)" by (cases step)
  show ?case
  proof (cases "fault env n")
    case (Some e)
    then show ?thesis using Cons.prems(1) by (auto simp: step)
  next
    case None
    show ?thesis
    proof (cases "f d")
      case (Inl e)
      then have "e \<in> schema_errors" using Cons.prems(2) [of label f d e] by (simp add: step)
      then show ?thesis using Cons.prems(1) None Inl by (auto simp: step)
    next
      case (Inr d1)
      have "run_tx env (Suc n) steps d1 = (Inl err, m)" using Cons.prems(1) None Inr by (simp add: step)
      then show ?thesis using Cons.IH Cons.prems(2) by (metis list.set_intros(2))
    qed
  qed
qed simp

lemma Save_error_class:
  assumes "\<And>k e. fault env k = Some e \<Longrightarrow> \<not> errors_is e (Sentinel s0)"
    and "fst (Save env p s) = Some err"
  shows "\<not> errors_is err (Sentinel s0)"
proof -
  have schema: "\<not> errors_is e (Sentinel s0)" if "e \<in> schema_errors" for e
    using that by (auto simp: schema_errors_def text_error_def range_error_def check_error_def
        fk_error_def unique_error_def)
  have tx: "\<not> errors_is e (Sentinel s0)" if "run_tx env n (save_steps env ord) d = (Inl e, m)" for n ord d e m
    using run_tx_error [OF that] statement_errors schema assms(1)
    by (fastforce simp: save_steps_def split: if_splits)
  show ?thesis
    using assms(2) tx assms(1)
    by (fastforce simp: Save_def Let_def split: option.splits if_splits sum.splits prod.splits)
qed

text \<open>C18: among the errors of \<open>SaveFromMessage\<close>, those of the class \<open>ErrInvalidOrder\<close>, on which the consumer
  commits the message, are exactly the rejections by the validator, and then cache and database
  are untouched.  A message that is not one well-formed JSON document gets an error outside
  this class.\<close>
theorem SaveFromMessage_error_class:
  assumes "cache_ok c" and "pg_ok r"
    and "\<And>raw e. decode_order js raw = Inl e \<Longrightarrow> \<not> errors_is e (Sentinel Validate_ErrInvalidOrder)"
    and "\<And>k e. fault env k = Some e \<Longrightarrow> \<not> errors_is e (Sentinel Validate_ErrInvalidOrder)"
    and "SaveFromMessage (app_service cenv (calm env) js parse_ok) raw (c, r) = (Some err, s1)"
  shows "(errors_is err (Sentinel Validate_ErrInvalidOrder) \<longleftrightarrow>
      (\<exists>ord rest. decode_order js raw = Inr (ord, rest) \<and> decode_rest js rest = Some (Sentinel IO_EOF) \<and>
         \<not> valid_order parse_ok ord)) \<and>
    (errors_is err (Sentinel Validate_ErrInvalidOrder) \<longrightarrow> s1 = (c, r))"
proof -
  let ?svc = "app_service cenv (calm env) js parse_ok"
  have inv: "app.svc_inv (c, r)" using assms(1,2) by (simp add: app.svc_inv_def)
  have fst: "fst (SaveFromMessage ?svc raw (c, r)) = Some err" using assms(5) by simp
  have dec: "decode_order (svc_json ?svc) raw = Inl e \<Longrightarrow> \<not> errors_is e (Sentinel Validate_ErrInvalidOrder)" for e
    using assms(3) by (simp add: app_service_def)
  have save: "fst (rp_Save (pg_port (calm env)) p (snd (c, r))) = Some e \<Longrightarrow>
      \<not> errors_is e (Sentinel Validate_ErrInvalidOrder)" for p e
    using Save_error_class [of "calm env"] assms(4) by (simp add: port_defs)
  note cls = app.SaveFromMessage_invalid [OF inv fst dec save]
  have "(\<exists>ord. app.decoded cenv env js parse_ok raw = Some ord \<and> Validate parse_ok (Some ord) \<noteq> None) \<longleftrightarrow>
      (\<exists>ord rest. decode_order js raw = Inr (ord, rest) \<and> decode_rest js rest = Some (Sentinel IO_EOF) \<and>
         \<not> valid_order parse_ok ord)"
    unfolding app.decoded_def
    by (auto simp: app_service_def Validate_iff split: sum.splits if_splits)
  then show ?thesis using cls assms(5) by simp
qed

lemma SaveFromMessage_error_class_witness:
  "\<exists>err. fst (SaveFromMessage sample_app ''[x]'' (app_start 2 0)) = Some err \<and>
     \<not> errors_is err (Sentinel Validate_ErrInvalidOrder)"
proof -
  have "fst (SaveFromMessage sample_app ''[x]'' (app_start 2 0)) \<noteq> None" by code_simp
  then obtain err s1 where run: "SaveFromMessage sample_app ''[x]'' ((NewLRUCacheTTL 2 0, 0), new_pg) = (Some err, s1)"
    by (cases "SaveFromMessage sample_app ''[x]'' ((NewLRUCacheTTL 2 0, 0), new_pg)") (auto simp: app_start_def)
  have "cache_ok (NewLRUCacheTTL 2 0, 0)" "pg_ok new_pg"
    by (simp_all add: cache_ok_def New_inv pg_ok_def new_pg_def)
  moreover have "decode_order uid_json raw = Inl e \<Longrightarrow> \<not> errors_is e (Sentinel Validate_ErrInvalidOrder)" for raw e
    by (auto simp: uid_json_def split: if_splits)
  moreover have "fault healthy k = Some e \<Longrightarrow> \<not> errors_is e (Sentinel Validate_ErrInvalidOrder)" for k e
    by (simp add: healthy_def)
  moreover have "decode_order uid_json ''[x]'' = Inl (Errorf ''unexpected character'')"
    by (simp add: uid_json_def)
  ultimately have "\<not> errors_is err (Sentinel Validate_ErrInvalidOrder)"
    using SaveFromMessage_error_class [OF _ _ _ _ run] by auto
  then show ?thesis by (simp add: app_start_def run)
qed

text \<open>C28: the validator does not ask for all that the repository needs: an order without a customer,
  or with a negative delivery cost, is as valid as one with them, but \<open>Save\<close> refuses it in every
  state of the database, so its message is never committed as invalid and never saved.\<close>
theorem valid_orders_that_cannot_be_saved:
  "valid_order parse_ok (ord\<lparr>CustomerID := []\<rparr>) = valid_order parse_ok ord \<and>
   fst (Save env (Some (ord\<lparr>CustomerID := []\<rparr>)) s) \<noteq> None \<and>
   valid_order parse_ok (ord\<lparr>Payment := (Payment ord)\<lparr>pDeliveryCost := - 1\<rparr>\<rparr>) = valid_order parse_ok ord \<and>
   fst (Save env (Some (ord\<lparr>Payment := (Payment ord)\<lparr>pDeliveryCost := - 1\<rparr>\<rparr>)) s) \<noteq> None"
proof -
  have refused: "fst (Save env (Some o') s) \<noteq> None" if "\<And>d. \<not> savable env o' d" for o'
    using Save_ok_iff [of env o' s] that by (metis prod.collapse)
  have "\<not> savable env (ord\<lparr>CustomerID := []\<rparr>) d"
    and "\<not> savable env (ord\<lparr>Payment := (Payment ord)\<lparr>pDeliveryCost := - 1\<rparr>\<rparr>) d" for d
    by (simp_all add: savable_def admissible_def ranges_ok_def nonneg_int4_def Let_def)
  then show ?thesis
    using refused by (simp add: valid_order_def valid_header_def)
qed

end
