(* ===== verification/Http_Props.thy ===== *)
theory Http_Props
  imports Http System
begin

text \<open>
  The transport over the wired service: what a client of the HTTP interface gets.
\<close>

section \<open>Query parameters\<close>

text \<open>whatever the query says, the limit given to the service lies between 1 and the maximum and
  the offset is not negative; a limit in the range and an offset in decimal are taken as they
  are.\<close>
theorem ParseLimitOffset_in_range:
  assumes "1 \<le> sint defaultLimit" and "sint defaultLimit \<le> sint maxLimit"
    and "ParseLimitOffset q defaultLimit maxLimit = (limit, offset)"
  shows "1 \<le> sint limit \<and> sint limit \<le> sint maxLimit \<and> 0 \<le> sint offset \<and>
    (\<forall>l. q ''limit'' = Some (itoa l) \<and> 1 \<le> sint l \<and> sint l \<le> sint maxLimit \<longrightarrow> limit = l) \<and>
    (\<forall>k. q ''offset'' = Some (itoa k) \<and> 0 \<le> sint k \<longrightarrow> offset = k)"
proof -
  have "limit = l" if "q ''limit'' = Some (itoa l)" "1 \<le> sint l" "sint l \<le> sint maxLimit" for l
    using assms(3) that by (simp add: ParseLimitOffset_def DefaultQuery_def Let_def ClampInt_def)
  moreover have "offset = k" if "q ''offset'' = Some (itoa k)" "0 \<le> sint k" for k
    using assms(3) that by (simp add: ParseLimitOffset_def DefaultQuery_def Let_def)
  ultimately show ?thesis using ParseLimitOffset_range [OF assms] by blast
qed

lemma ParseLimitOffset_in_range_witness:
  "ParseLimitOffset [''limit'' \<mapsto> ''500'', ''offset'' \<mapsto> ''-3''] 20 100 = (100, 0) \<and>
   1 \<le> sint (fst (ParseLimitOffset [''limit'' \<mapsto> ''abc''] 20 100))"
proof -
  have "ParseLimitOffset [''limit'' \<mapsto> ''500'', ''offset'' \<mapsto> ''-3''] 20 100 = (100, 0)"
    by code_simp
  moreover obtain limit offset where run: "ParseLimitOffset [''limit'' \<mapsto> ''abc''] 20 100 = (limit, offset)"
    by (cases "ParseLimitOffset [''limit'' \<mapsto> ''abc''] 20 100")
  then have "1 \<le> sint limit" using ParseLimitOffset_in_range [OF _ _ run] by simp
  ultimately show ?thesis by (simp add: run)
qed

section \<open>Responses\<close>

abbreviation app_reader where
  "app_reader cenv env js parse_ok \<equiv> read_service (app_service cenv (calm env) js parse_ok)"

text \<open>The answer to \<open>GET /order/:id\<close> while cache and database agree.\<close>

lemma order_response_at:
  assumes inv: "app.svc_inv s" and co: "app.coherent s"
    and run: "serve (app_reader cenv env js parse_ok) uuid rq s = ((resp, logs), s1)"
    and route: "rq_route rq = R_Order uid"
  shows "(rs_status resp = 200 \<longleftrightarrow> (\<exists>ord. rs_body resp = Body_Order ord)) \<and>
    (\<forall>ord. rs_body resp = Body_Order ord \<longrightarrow>
       OrderUID ord = uid \<and> rel_option pg_same (Some ord) (pg_view (snd s) uid)) \<and>
    (rs_status resp = 404 \<longrightarrow> uid \<noteq> [] \<and> pg_view (snd s) uid = None) \<and>
    rs_status resp \<in> {200, 400, 404, 500} \<and> (rs_status resp = 400 \<longleftrightarrow> uid = [])"
proof -
  let ?svc = "app_service cenv (calm env) js parse_ok"
  obtain st b where h: "getOrderByID (app_reader cenv env js parse_ok) uid s = ((st, b), s1)"
    "rs_status resp = st" "rs_body resp = b"
    using run route by (auto simp: serve_def Let_def split: prod.splits)
  have view: "rel_option pg_same p (pg_view (snd s) uid)" if "fst (GetOrder ?svc uid s) = Inr p" for p
    by (rule app.GetOrder_answer [OF inv co that])
  obtain res s2 where get: "GetOrder ?svc uid s = (res, s2)" by (cases "GetOrder ?svc uid s")
  have uid: "OrderUID ord = uid" if "res = Inr (Some ord)" for ord
    using app.reader.get_uid [OF inv, of cenv env js parse_ok uid ord] that get
    by (simp add: read_service_def)
  show ?thesis
  proof (cases "uid = []")
    case True
    then show ?thesis using h(1) by (auto simp: getOrderByID_def h(2,3))
  next
    case False
    then show ?thesis
      using h(1) get view uid 
      by (cases res) (auto simp: getOrderByID_def read_service_def h(2,3) split: option.splits)
  qed
qed

text \<open>over every history of the service, the answer to \<open>GET /order/:id\<close> is an order, with status
  200, exactly when the service finds one, and then it is the order with the UID asked for, as
  the database holds it; otherwise it is 404 for no order, 500 for an error and 400 for an empty
  UID.\<close>
theorem order_response:
  assumes "\<forall>n. \<not> commit_lost env n"
    and "s = svc_run (app_service cenv (calm env) js parse_ok) ops (app_start cap d)"
    and "serve (app_reader cenv env js parse_ok) uuid rq s = ((resp, logs), s1)"
    and "rq_route rq = R_Order uid"
  shows "(rs_status resp = 200 \<longleftrightarrow> (\<exists>ord. rs_body resp = Body_Order ord)) \<and>
    (\<forall>ord. rs_body resp = Body_Order ord \<longrightarrow>
       OrderUID ord = uid \<and> rel_option pg_same (Some ord) (pg_view (snd s) uid)) \<and>
    (rs_status resp = 404 \<longrightarrow> uid \<noteq> [] \<and> pg_view (snd s) uid = None) \<and>
    rs_status resp \<in> {200, 400, 404, 500} \<and> (rs_status resp = 400 \<longleftrightarrow> uid = [])"
proof -
  have "app.svc_inv s" by (simp add: assms(2) app_run_inv)
  moreover have "app.coherent s" by (simp add: assms(2) app_run_coherent [OF assms(1)])
  ultimately show ?thesis using assms(3,4) by (rule order_response_at)
qed

definition sample_request :: "route \<Rightarrow> request" where
  "sample_request rt = \<lparr>rq_route = rt, rq_query = Map.empty, rq_id_header = [],
     rq_context = \<lparr>key_request_id = None\<rparr>, rq_method = ''GET'', rq_path = ''/''\<rparr>"

lemma order_response_witness:
  "\<exists>resp logs s1 ord. serve (app_reader sample_cenv healthy uid_json (\<lambda>_. True)) ''u1'' (sample_request (R_Order ''a''))
      (svc_run sample_app [Op_SaveFromMessage ''{a}''] (app_start 2 0)) = ((resp, logs), s1) \<and>
    rs_body resp = Body_Order ord \<and> OrderUID ord = ''a''"
proof -
  let ?s = "svc_run sample_app [Op_SaveFromMessage ''{a}''] (app_start 2 0)"
  let ?run = "serve (app_reader sample_cenv healthy uid_json (\<lambda>_. True)) ''u1'' (sample_request (R_Order ''a'')) ?s"
  have "rs_status (fst (fst ?run)) = 200" by code_simp
  then obtain resp logs s1 where run: "?run = ((resp, logs), s1)" and st: "rs_status resp = 200"
    by (cases ?run; cases "fst ?run") auto
  have "\<forall>n. \<not> commit_lost healthy n" by (simp add: healthy_def)
  note resp = order_response [OF this refl run, of "''a''"]
  obtain ord where "rs_body resp = Body_Order ord" "OrderUID ord = ''a''"
    using resp st by (auto simp: sample_request_def)
  with run show ?thesis by (intro exI conjI)
qed

text \<open>\<open>GET /customer/:id/orders\<close> answers 200 with at most 100 orders, all of them of the customer
  and as the database holds them, or 500 when a statement failed, or 400 for an empty id.\<close>
theorem customer_orders_response:
  assumes "s = svc_run (app_service cenv (calm env) js parse_ok) ops (app_start cap d)"
    and "serve (app_reader cenv env js parse_ok) uuid rq s = ((resp, logs), s1)"
    and "rq_route rq = R_CustomerOrders cust"
  shows "(rs_status resp = 200 \<and> (\<exists>ords. rs_body resp = Body_Orders (Some ords) \<and> length ords \<le> 100 \<and>
       (\<forall>ord\<in>set ords. CustomerID ord = cust \<and>
          rel_option pg_same (Some ord) (pg_view (snd s) (OrderUID ord))))) \<or>
    rs_status resp = 500 \<or> rs_status resp = 400 \<and> cust = []"
proof -
  let ?svc = "app_service cenv (calm env) js parse_ok"
  have inv: "app.svc_inv s" by (simp add: assms(1) app_run_inv)
  obtain st b where h: "listOrdersByCustomer (app_reader cenv env js parse_ok) cust (rq_query rq) s = ((st, b), s1)"
    "rs_status resp = st" "rs_body resp = b"
    using assms(2,3) by (auto simp: serve_def Let_def split: prod.splits)
  consider "cust = []" "st = 400" | "st = 500" | "st = 200"
    using h(1) by (auto simp: listOrdersByCustomer_def split: if_splits prod.splits sum.splits)
  then show ?thesis
  proof cases
    case 3
    obtain limit offset s2 ords where run: "OrdersByCustomer ?svc cust limit offset s = (Inr ords, s2)"
      and b: "b = Body_Orders ords"
      using h(1) 3 by (auto simp: listOrdersByCustomer_def read_service_def split: if_splits prod.splits sum.splits)
    then have list: "fst (ListByCustomer (calm env) cust limit offset (snd s)) = Inr ords"
      by (auto simp: OrdersByCustomer_def app_service_def port_defs split: prod.splits)
    then obtain os where os: "ords = Some os"
      using List_raw [of env cust limit offset "snd s" ords] by (metis prod.collapse)
    have "pg_ok (snd s)" using inv by (simp add: app.svc_inv_def)
    then have "CustomerID ord = cust \<and> rel_option pg_same (Some ord) (pg_view (snd s) (OrderUID ord))"
      if "ord \<in> set os" for ord
      using pgr.list_ok [of "snd s" env cust limit offset ords ord] list that by (simp add: port_defs os)
    moreover have "length os \<le> 100"
      using order_reader.list_answer [OF app.reader.order_reader_axioms inv h(1) [unfolded 3]] by (simp add: b os)
    ultimately show ?thesis using h 3 by (simp add: b os)
  qed (use h in simp_all)
qed

lemma customer_orders_response_witness:
  "\<exists>resp ords. fst (fst (serve (app_reader sample_cenv healthy uid_json (\<lambda>_. True)) ''u1'' (sample_request (R_CustomerOrders ''cust''))
      (svc_run sample_app [Op_SaveFromMessage ''{a}''] (app_start 2 0)))) = resp \<and>
    rs_body resp = Body_Orders (Some ords) \<and> length ords \<le> 100"
proof -
  let ?s = "svc_run sample_app [Op_SaveFromMessage ''{a}''] (app_start 2 0)"
  let ?run = "serve (app_reader sample_cenv healthy uid_json (\<lambda>_. True)) ''u1'' (sample_request (R_CustomerOrders ''cust'')) ?s"
  have "rs_status (fst (fst ?run)) = 200" by code_simp
  then obtain resp logs s1 where run: "?run = ((resp, logs), s1)" and st: "rs_status resp = 200"
    by (cases ?run; cases "fst ?run") auto
  obtain ords where "rs_body resp = Body_Orders (Some ords)" "length ords \<le> 100"
    using customer_orders_response [OF refl run, of "''cust''"] st by (auto simp: sample_request_def)
  with run show ?thesis by auto
qed

text \<open>every response carries the identifier its request ran under, which is the client's, if it sent
  one, and otherwise the generated one; the log line of an API request has the same.\<close>
theorem response_carries_request_id:
  assumes "serve rs uuid rq s = ((resp, logs), s1)" and "uuid \<noteq> []"
  shows "rs_id_header resp = (if rq_id_header rq = [] then uuid else rq_id_header rq) \<and>
    rs_id_header resp \<noteq> [] \<and> (\<forall>l\<in>set logs. log_id l = rs_id_header resp \<and> log_status l = rs_status resp) \<and>
    (length logs = 1 \<longleftrightarrow> (\<exists>uid. rq_route rq = R_Order uid) \<or> (\<exists>cust. rq_route rq = R_CustomerOrders cust))"
  using assms
  by (auto simp: serve_def Let_def RequestIDMiddleware_def RequestLogger_def WithRequestID_def
      RequestIDFromContext_def split: route.splits prod.splits if_splits)

lemma response_carries_request_id_witness:
  "rs_id_header (fst (fst (serve (app_reader sample_cenv healthy uid_json (\<lambda>_. True)) ''u1''
     (sample_request (R_Order ''zz'')) (app_start 2 0)))) = ''u1''"
proof -
  let ?run = "serve (app_reader sample_cenv healthy uid_json (\<lambda>_. True)) ''u1'' (sample_request (R_Order ''zz'')) (app_start 2 0)"
  obtain resp logs s1 where run: "?run = ((resp, logs), s1)" by (cases ?run; cases "fst ?run") auto
  from response_carries_request_id [OF run] have "rs_id_header resp = ''u1''"
    by (simp add: sample_request_def)
  then show ?thesis by (simp only: run fst_conv)
qed

end
