(* ===== verification/Pipeline.thy ===== *)
theory Pipeline
  imports Kafka_Props Http_Props
begin

text \<open>
  The path of an order through the program: the consumer of \<open>internal/kafka\<close> with the service of
  \<open>internal/usecase\<close> as its saver, as \<open>internal/app/bootstrap.go\<close> connects them, while requests
  of the HTTP transport come in.
\<close>

section \<open>The consumer with the service as its saver\<close>

text \<open>
  The world of the consumer is the broker's side and the service's state.  \<open>broker\<close> gives the
  reader, the context and the timers; its own \<open>saveFromMessage\<close> is not used.  While \<open>Run\<close> waits
  in \<open>FetchMessage\<close>, the transport serves the requests \<open>requests w\<close>.
\<close>

definition wire ::
    "'k consumer_env \<Rightarrow> ('k \<Rightarrow> svc_op list) \<Rightarrow> ('c, 'r) order_service \<Rightarrow> ('k \<times> 'c \<times> 'r) consumer_env" where
  "wire broker requests svc =
     \<lparr>FetchMessage = (\<lambda>(w, s). case FetchMessage broker w of (res, w1) \<Rightarrow> (res, (w1, svc_run svc (requests w) s))),
      CommitMessages = (\<lambda>m (w, s). case CommitMessages broker m w of (err, w1) \<Rightarrow> (err, (w1, s))),
      saveFromMessage = (\<lambda>t raw (w, s). case SaveFromMessage svc raw s of (err, s1) \<Rightarrow> (err, (w, s1))),
      ctx_Err = (\<lambda>(w, s). ctx_Err broker w),
      after_or_done = (\<lambda>d (w, s). case after_or_done broker d w of (b, w1) \<Rightarrow> (b, (w1, s))),
      Int63n = (\<lambda>n (w, s). Int63n broker n w)\<rparr>"

fun is_read :: "svc_op \<Rightarrow> bool" where
  "is_read (Op_SaveFromMessage raw) = False"
| "is_read _ = True"

text \<open>The order of a message, when it is one document that decodes strictly.\<close>

definition message_order :: "json_lib \<Rightarrow> string \<Rightarrow> order option" where
  "message_order js raw =
     (case decode_order js raw of
        Inl err \<Rightarrow> None
      | Inr (ord, rest) \<Rightarrow> if decode_rest js rest = Some (Sentinel IO_EOF) then Some ord else None)"

text \<open>The order last accepted under each UID, by the calls the consumer made.\<close>

definition accept_call :: "json_lib \<Rightarrow> call \<Rightarrow> (string \<rightharpoonup> order) \<Rightarrow> (string \<rightharpoonup> order)" where
  "accept_call js call m =
     (case call of
        Saved raw None \<Rightarrow>
          (case message_order js raw of None \<Rightarrow> m | Some ord \<Rightarrow> m(OrderUID ord \<mapsto> ord))
      | _ \<Rightarrow> m)"

definition last_accepted :: "json_lib \<Rightarrow> call list \<Rightarrow> string \<rightharpoonup> order" where
  "last_accepted js cs = fold (accept_call js) cs Map.empty"

lemma last_accepted_simps [simp]:
  "last_accepted js [] = Map.empty"
  "last_accepted js (cs @ [call]) = accept_call js call (last_accepted js cs)"
  by (simp_all add: last_accepted_def)

lemma accept_call_simps [simp]:
  "accept_call js (Fetched m) v = v" "accept_call js (FetchFailed e) v = v"
  "accept_call js (Committed m r) v = v" "accept_call js (Slept d b) v = v"
  "accept_call js (Saved raw (Some e)) v = v"
  by (simp_all add: accept_call_def)

section \<open>What holds after every iteration\<close>

text \<open>The state of a run after at most \<open>n\<close> iterations, whether or not \<open>Run\<close> returned.\<close>

definition state_after :: "consumer \<Rightarrow> 'w consumer_env \<Rightarrow> 'w \<Rightarrow> nat \<Rightarrow> 'w run_state" where
  "state_after c env w n =
     (case run_loop c env n (init_run c w) of Inl s \<Rightarrow> s | Inr (_, s) \<Rightarrow> s)"

lemma calls_after_state: "calls_after c env w n = calls (state_after c env w n)"
  by (simp add: calls_after_def state_after_def split: sum.split prod.split)

text \<open>A property of world and calls that every call keeps holds throughout.\<close>

definition call_inv :: "'w consumer_env \<Rightarrow> ('w \<Rightarrow> call list \<Rightarrow> bool) \<Rightarrow> bool" where
  "call_inv env P \<longleftrightarrow>
     (\<forall>w cs. P w cs \<longrightarrow>
       (\<forall>m. fst (FetchMessage env w) = Inl m \<longrightarrow> P (snd (FetchMessage env w)) (cs @ [Fetched m])) \<and>
       (\<forall>e. fst (FetchMessage env w) = Inr e \<longrightarrow> P (snd (FetchMessage env w)) (cs @ [FetchFailed e])) \<and>
       (\<forall>t raw. P (snd (saveFromMessage env t raw w)) (cs @ [Saved raw (fst (saveFromMessage env t raw w))])) \<and>
       (\<forall>m. P (snd (CommitMessages env m w)) (cs @ [Committed m (fst (CommitMessages env m w))])) \<and>
       (\<forall>d. P (snd (after_or_done env d w)) (cs @ [Slept d (fst (after_or_done env d w))])))"

lemma call_invD:
  assumes "call_inv env P" and "P w cs"
  shows "FetchMessage env w = (Inl m, w1) \<Longrightarrow> P w1 (cs @ [Fetched m])"
    and "FetchMessage env w = (Inr e, w1) \<Longrightarrow> P w1 (cs @ [FetchFailed e])"
    and "saveFromMessage env t raw w = (r, w1) \<Longrightarrow> P w1 (cs @ [Saved raw r])"
    and "CommitMessages env m w = (r', w1) \<Longrightarrow> P w1 (cs @ [Committed m r'])"
    and "after_or_done env d w = (b, w1) \<Longrightarrow> P w1 (cs @ [Slept d b])"
  using assms by (metis call_inv_def fst_conv snd_conv)+

lemma handleMessage_call_inv:
  "call_inv env P \<Longrightarrow> P (world s) (calls s) \<Longrightarrow> handleMessage c env m s = (b, s1) \<Longrightarrow>
    P (world s1) (calls s1)"
  by (auto simp: handleMessage_def Let_def split: prod.splits option.splits dest: call_invD(3))

lemma commitSafely_call_inv:
  "call_inv env P \<Longrightarrow> P (world s) (calls s) \<Longrightarrow> P (world (commitSafely env m s)) (calls (commitSafely env m s))"
  by (auto simp: commitSafely_def split: prod.splits dest: call_invD(4))

lemma sleep_call_inv:
  "call_inv env P \<Longrightarrow> P (world s) (calls s) \<Longrightarrow> sleepWithBackoff env d s = (b, s1) \<Longrightarrow>
    P (world s1) (calls s1)"
  by (auto simp: sleepWithBackoff_def split: prod.splits dest: call_invD(5))

lemma run_iter_call_inv:
  assumes inv: "call_inv env P" and P: "P (world s) (calls s)"
  shows "case run_iter c env s of Inl s1 \<Rightarrow> P (world s1) (calls s1) | Inr (_, s1) \<Rightarrow> P (world s1) (calls s1)"
proof -
  obtain res w where fetch: "FetchMessage env (world s) = (res, w)" by (cases "FetchMessage env (world s)")
  show ?thesis
  proof (cases res)
    case (Inl m)
    let ?s = "s\<lparr>world := w, calls := calls s @ [Fetched m], retry := retryInitial c, consumed := Suc (consumed s)\<rparr>"
    have "P (world ?s) (calls ?s)" using call_invD(1) [OF inv P] fetch Inl by simp
    moreover obtain b s1 where handle: "handleMessage c env m ?s = (b, s1)" by (cases "handleMessage c env m ?s")
    ultimately have s1: "P (world s1) (calls s1)" by (rule handleMessage_call_inv [OF inv])
    show ?thesis
      using sleep_call_inv [where P = P, OF inv s1] commitSafely_call_inv [where P = P, OF inv s1]
      by (simp add: run_iter_def Let_def fetch Inl handle split: prod.split)
  next
    case (Inr e)
    let ?s = "s\<lparr>world := w, calls := calls s @ [FetchFailed e]\<rparr>"
    have "P (world ?s) (calls ?s)" using call_invD(2) [OF inv P] fetch Inr by simp
    then show ?thesis
      using sleep_call_inv [OF inv, of ?s]
      by (auto simp: run_iter_def Let_def fetch Inr split: prod.split)
  qed
qed

lemma state_after_call_inv:
  assumes inv: "call_inv env P" and "P w []"
  shows "P (world (state_after c env w n)) (calls (state_after c env w n))"
proof -
  have "case run_loop c env n s of Inl s1 \<Rightarrow> P (world s1) (calls s1) | Inr (_, s1) \<Rightarrow> P (world s1) (calls s1)"
    if "P (world s) (calls s)" for s
    using that
  proof (induction n arbitrary: s)
    case (Suc n)
    then show ?case using run_iter_call_inv [OF inv Suc.prems, of c] by (cases "run_iter c env s") auto
  qed simp
  from this [of "init_run c w"] assms(2) show ?thesis
    by (auto simp: state_after_def init_run_def split: sum.splits prod.splits)
qed

section \<open>The service behind the consumer\<close>

lemma wire_call_inv:
  assumes "\<And>w s cs call. Q s cs \<Longrightarrow> (\<And>raw r. call \<noteq> Saved raw r) \<Longrightarrow> Q (svc_run svc (requests w) s) (cs @ [call])"
    and "\<And>s cs call. Q s cs \<Longrightarrow> (\<And>raw r. call \<noteq> Saved raw r) \<Longrightarrow> Q s (cs @ [call])"
    and "\<And>s cs raw. Q s cs \<Longrightarrow>
          Q (snd (SaveFromMessage svc raw s)) (cs @ [Saved raw (fst (SaveFromMessage svc raw s))])"
  shows "call_inv (wire broker requests svc) (\<lambda>(w, s). Q s)"
  unfolding call_inv_def by (simp add: wire_def case_prod_beta assms)

context service
begin

lemma decoded_message: "decoded raw = message_order (svc_json svc) raw"
  by (simp add: decoded_def message_order_def)

lemma read_step:
  assumes "is_read op" and "svc_inv s"
  shows "rview (snd (svc_step svc op s)) = rview (snd s)"
proof (cases op)
  case (Op_GetOrder uid)
  obtain c r where s: "s = (c, r)" by (cases s)
  have view: "rview r1 = rview r" if "rp_GetByUID rp k r = (res, r1)" for k res r1
    using repo.get_view [of r k] assms(2) that by (simp add: s svc_inv_def)
  from assms(2) [unfolded s] show ?thesis
    by (cases rule: GetOrder_cases [where uid = uid]) (auto simp: Op_GetOrder s dest: view)
next
  case (Op_OrdersByCustomer cust limit offset)
  then show ?thesis
    using assms(2) repo.list_view [of "snd s" cust limit offset]
    by (auto simp: svc_inv_def OrdersByCustomer_def parts split: prod.split)
qed (use assms in \<open>auto simp: WarmUpCache_state\<close>)

lemma read_step_coherent:
  "is_read op \<Longrightarrow> svc_inv s \<Longrightarrow> coherent s \<Longrightarrow> coherent (svc_step svc op s)"
  by (cases op) (simp_all add: GetOrder_coherent WarmUpCache_state OrdersByCustomer_state)

lemma read_run:
  assumes "list_all is_read ops" and "svc_inv s"
  shows "rview (snd (svc_run svc ops s)) = rview (snd s)"
    and "coherent s \<Longrightarrow> coherent (svc_run svc ops s)"
  using assms
  by (induction ops arbitrary: s)
    (simp_all add: svc_run_Cons svc_step_inv read_step read_step_coherent, simp_all add: svc_run_def)

text \<open>A message, seen from outside: what a success and a rejection mean.\<close>

lemma SaveFromMessage_None:
  assumes "svc_inv s" and "SaveFromMessage svc raw s = (None, s1)"
  shows "\<exists>ord ord'. message_order (svc_json svc) raw = Some ord \<and> vp (Some ord) = None \<and> same ord ord' \<and>
    rview (snd s1) = (rview (snd s))(OrderUID ord \<mapsto> ord')"
proof -
  obtain c r where s: "s = (c, r)" by (cases s)
  from assms(1) [unfolded s] show ?thesis
  proof (cases rule: SaveFromMessage_cases [where raw = raw])
    case (saved ord r1 c1)
    then show ?thesis
      using repo.save_ok [of r ord r1] assms by (auto simp: s svc_inv_def decoded_message)
  qed (use assms(2) in \<open>simp_all add: s\<close>)
qed

lemma SaveFromMessage_dom:
  assumes "svc_inv s"
  shows "dom (rview (snd s)) \<subseteq> dom (rview (snd (snd (SaveFromMessage svc raw s))))"
proof -
  obtain c r where s: "s = (c, r)" by (cases s)
  have r: "rinv r" using assms by (simp add: s svc_inv_def)
  from assms(1) [unfolded s] show ?thesis
  proof (cases rule: SaveFromMessage_cases [where raw = raw])
    case (not_saved ord err r1)
    then show ?thesis using repo.save_err [OF r not_saved(3)] by (auto simp: s)
  next
    case (saved ord r1 c1)
    then show ?thesis using repo.save_ok [OF r saved(4)] by (auto simp: s)
  qed (simp_all add: s)
qed

text \<open>The saver's answers and the repository, throughout a run of the consumer.\<close>

definition answers_hold :: "'c \<times> 'r \<Rightarrow> call list \<Rightarrow> bool" where
  "answers_hold s cs \<longleftrightarrow> svc_inv s \<and>
     (\<forall>raw r. Saved raw r \<in> set cs \<longrightarrow> should_commit r \<longrightarrow>
       (\<exists>ord. message_order (svc_json svc) raw = Some ord \<and>
          (if r = None then vp (Some ord) = None \<and> OrderUID ord \<in> dom (rview (snd s))
           else vp (Some ord) \<noteq> None)))"

lemma answers_holdD:
  assumes "answers_hold s cs" and "Saved raw r \<in> set cs" and "should_commit r"
  shows "\<exists>ord. message_order (svc_json svc) raw = Some ord \<and>
    (vp (Some ord) = None \<longrightarrow> rview (snd s) (OrderUID ord) \<noteq> None)"
  using assms unfolding answers_hold_def by (metis domIff)

lemma answers_hold_mono:
  "answers_hold s cs \<Longrightarrow> svc_inv s1 \<Longrightarrow> dom (rview (snd s)) \<subseteq> dom (rview (snd s1)) \<Longrightarrow> answers_hold s1 cs"
  unfolding answers_hold_def by (metis subsetD)

lemma answers_hold_append:
  "answers_hold s (cs @ [call]) \<longleftrightarrow> answers_hold s cs \<and> answers_hold s [call]"
  by (auto simp: answers_hold_def)

lemma answers_hold_other:
  "answers_hold s cs \<Longrightarrow> (\<And>raw r. call \<noteq> Saved raw r) \<Longrightarrow> answers_hold s (cs @ [call])"
  by (auto simp: answers_hold_def)

lemma wire_answers_hold:
  assumes "\<And>w. list_all is_read (requests w)"
    and "\<And>raw e. decode_order (svc_json svc) raw = Inl e \<Longrightarrow> \<not> errors_is e (Sentinel Validate_ErrInvalidOrder)"
    and "\<And>p e r. fst (rp_Save rp p r) = Some e \<Longrightarrow> \<not> errors_is e (Sentinel Validate_ErrInvalidOrder)"
  shows "call_inv (wire broker requests svc) (\<lambda>(w, s). answers_hold s)"
proof -
  have save: "answers_hold s1 (cs @ [Saved raw r])"
    if *: "answers_hold s cs" and run: "SaveFromMessage svc raw s = (r, s1)" for s s1 cs raw r
  proof -
    have inv: "svc_inv s" using * by (simp add: answers_hold_def)
    have inv1: "svc_inv s1" using SaveFromMessage_inv [OF inv, of raw] run by simp
    have "answers_hold s1 cs"
      using SaveFromMessage_dom [OF inv, of raw] run by (intro answers_hold_mono [OF * inv1]) simp
    moreover have "answers_hold s1 [Saved raw r]"
    proof (cases r)
      case None
      then show ?thesis using SaveFromMessage_None [OF inv] run inv1 by (fastforce simp: answers_hold_def)
    next
      case (Some e)
      then show ?thesis
        using SaveFromMessage_invalid(1) [OF inv, of raw e] assms(2,3) run inv1
        by (auto simp: answers_hold_def should_commit_iff decoded_message)
    qed
    ultimately show ?thesis by (subst answers_hold_append) simp
  qed
  show ?thesis
  proof (rule wire_call_inv)
    fix w s cs and call :: call
    assume *: "answers_hold s cs" and call: "\<And>raw r. call \<noteq> Saved raw r"
    have inv: "svc_inv s" using * by (simp add: answers_hold_def)
    show "answers_hold (svc_run svc (requests w) s) (cs @ [call])"
      using read_run(1) [OF assms(1) inv, of w]
      by (intro answers_hold_other [OF _ call] answers_hold_mono [OF * svc_run_inv [OF inv]]) simp
  qed (simp_all add: answers_hold_other save)
qed

text \<open>When a failed save has changed nothing, the repository holds what was last accepted.\<close>

definition follows :: "'c \<times> 'r \<Rightarrow> call list \<Rightarrow> bool" where
  "follows s cs \<longleftrightarrow> svc_inv s \<and> coherent s \<and>
     (\<forall>uid. rel_option same (last_accepted (svc_json svc) cs uid) (rview (snd s) uid))"

lemma wire_follows:
  assumes "\<And>w. list_all is_read (requests w)"
    and "\<And>raw s. svc_inv s \<Longrightarrow> fst (SaveFromMessage svc raw s) \<noteq> None \<Longrightarrow>
          rview (snd (snd (SaveFromMessage svc raw s))) = rview (snd s)"
  shows "call_inv (wire broker requests svc) (\<lambda>(w, s). follows s)"
proof -
  have other: "follows s (cs @ [call]) \<longleftrightarrow> follows s cs" if "\<And>raw r. call \<noteq> Saved raw r" for s cs call
    using that by (cases call) (auto simp: follows_def)
  have save: "follows s1 (cs @ [Saved raw r])"
    if *: "follows s cs" and run: "SaveFromMessage svc raw s = (r, s1)" for s s1 cs raw r
  proof -
    have inv: "svc_inv s" "coherent s" using * by (simp_all add: follows_def)
    have co: "svc_inv s1" "coherent s1"
      using SaveFromMessage_inv [OF inv(1), of raw] SaveFromMessage_coherent [OF inv, of raw]
        assms(2) [OF inv(1), of raw] run by simp_all
    show ?thesis
    proof (cases r)
      case None
      then obtain ord ord' where msg: "message_order (svc_json svc) raw = Some ord"
        "same ord ord'" "rview (snd s1) = (rview (snd s))(OrderUID ord \<mapsto> ord')"
        using SaveFromMessage_None [OF inv(1)] run by blast
      then have "last_accepted (svc_json svc) (cs @ [Saved raw r]) =
          (last_accepted (svc_json svc) cs)(OrderUID ord \<mapsto> ord)"
        using None by (simp add: accept_call_def)
      then show ?thesis using msg co * by (simp add: follows_def)
    next
      case (Some e)
      then show ?thesis using assms(2) [OF inv(1), of raw] run co * by (simp add: follows_def)
    qed
  qed
  show ?thesis
  proof (rule wire_call_inv)
    fix w s cs and call :: call
    assume *: "follows s cs" and call: "\<And>raw r. call \<noteq> Saved raw r"
    then have "follows (svc_run svc (requests w) s) cs"
      using read_run [OF assms(1), of s w] svc_run_inv by (simp add: follows_def)
    then show "follows (svc_run svc (requests w) s) (cs @ [call])" by (simp only: other [OF call])
  qed (simp_all add: other save)
qed

end

section \<open>From the topic to the database and to the reader\<close>

text \<open>The calls and the service's state after at most \<open>n\<close> iterations of the consumer's loop.\<close>

definition consume ::
    "consumer \<Rightarrow> 'k consumer_env \<Rightarrow> ('k \<Rightarrow> svc_op list) \<Rightarrow> ('c, 'r) order_service \<Rightarrow>
     nat \<Rightarrow> 'k \<Rightarrow> 'c \<times> 'r \<Rightarrow> call list \<times> 'c \<times> 'r" where
  "consume c broker requests svc n w s =
     (let st = state_after c (wire broker requests svc) (w, s) n in (calls st, snd (world st)))"

lemma consume_inv:
  assumes "call_inv (wire broker requests svc) (\<lambda>(w, s). Q s)" and "Q s []"
    and "consume c broker requests svc n w s = (cs, s1)"
  shows "Q s1 cs"
  using state_after_call_inv [OF assms(1), of "(w, s)" c n] assms(2,3)
  by (auto simp: consume_def Let_def case_prod_beta)

lemma app_service_json [simp]: "svc_json (app_service cenv env js parse_ok) = js"
  by (simp add: app_service_def)

lemma app_start_answers_hold: "app.answers_hold parse_ok cenv env js (app_start cap d) []"
  by (simp add: app.answers_hold_def app_start_inv)

lemma app_start_follows: "app.follows cenv env js parse_ok (app_start cap d) []"
proof -
  have "pg_view (snd (app_start cap d)) = Map.empty"
    by (rule ext) (simp add: app_start_def pg_view_def new_pg_def db_view_def empty_db_def)
  then show ?thesis by (simp add: app.follows_def app_start_inv app_start_coherent)
qed

lemma app_follows:
  assumes "\<forall>n. \<not> commit_lost env n" and "\<forall>w. list_all is_read (requests w)"
    and "consume c broker requests (app_service cenv (calm env) js parse_ok) n w (app_start cap d) = (cs, s)"
  shows "app.follows cenv env js parse_ok s cs"
proof (rule consume_inv [where Q = "app.follows cenv env js parse_ok", OF _ app_start_follows assms(3)])
  show "call_inv (wire broker requests (app_service cenv (calm env) js parse_ok))
      (\<lambda>(w, s). app.follows cenv env js parse_ok s)"
    using assms(2) by (intro app.wire_follows SaveFromMessage_error_definite [OF assms(1)]) simp_all
qed

lemma app_answers_call_inv:
  assumes "\<And>raw e. decode_order js raw = Inl e \<Longrightarrow> \<not> errors_is e (Sentinel Validate_ErrInvalidOrder)"
    and "\<And>k e. fault env k = Some e \<Longrightarrow> \<not> errors_is e (Sentinel Validate_ErrInvalidOrder)"
    and "\<forall>w. list_all is_read (requests w)"
  shows "call_inv (wire broker requests (app_service cenv (calm env) js parse_ok))
    (\<lambda>(w, s). app.answers_hold parse_ok cenv env js s)"
proof (rule app.wire_answers_hold)
  show "\<not> errors_is e (Sentinel Validate_ErrInvalidOrder)"
    if "fst (rp_Save (pg_port (calm env)) p r) = Some e" for p e r
    using that Save_error_class [of "calm env" Validate_ErrInvalidOrder p r e] assms(2) by (simp add: port_defs)
qed (use assms(1,3) in simp_all)

text \<open>no committed message is lost: whatever the broker, the database and the requests do, a message
  whose offset was committed held one well-formed document; if its order is valid, the database
  holds an order under its UID from then on.\<close>
theorem committed_orders_are_stored:
  assumes "\<And>raw e. decode_order js raw = Inl e \<Longrightarrow> \<not> errors_is e (Sentinel Validate_ErrInvalidOrder)"
    and "\<And>k e. fault env k = Some e \<Longrightarrow> \<not> errors_is e (Sentinel Validate_ErrInvalidOrder)"
    and "\<forall>w. list_all is_read (requests w)"
    and "consume c broker requests (app_service cenv (calm env) js parse_ok) n w (app_start cap d) = (cs, s)"
    and "Committed m e \<in> set cs"
  shows "\<exists>ord. message_order js (msg_Value m) = Some ord \<and>
    (valid_order parse_ok ord \<longrightarrow> pg_view (snd s) (OrderUID ord) \<noteq> None)"
proof -
  let ?svc = "app_service cenv (calm env) js parse_ok"
  have "call_inv (wire broker requests ?svc) (\<lambda>(w, s). app.answers_hold parse_ok cenv env js s)"
    by (rule app_answers_call_inv [OF assms(1-3)])
  then have hold: "app.answers_hold parse_ok cenv env js s cs"
    by (rule consume_inv [where Q = "app.answers_hold parse_ok cenv env js", OF _ app_start_answers_hold assms(4)])
  have cs: "cs = calls_after c (wire broker requests ?svc) (w, app_start cap d) n"
    using assms(4) by (simp add: consume_def Let_def calls_after_state)
  then obtain xs ys where split: "calls_after c (wire broker requests ?svc) (w, app_start cap d) n = xs @ Committed m e # ys"
    using assms(5) by (auto dest: split_list)
  from committed_after_saved [OF split] obtain xs' r
    where "xs = xs' @ [Fetched m, Saved (msg_Value m) r]" and r: "should_commit r"
    by blast
  then have "Saved (msg_Value m) r \<in> set cs" using cs split by simp
  from app.answers_holdD [OF hold this r] show ?thesis by (simp add: Validate_iff)
qed

lemma committed_orders_are_stored_witness:
  "pg_view (snd (snd (consume sample_consumer script_env (\<lambda>w. [Op_GetOrder ''a'']) sample_app 2
     [Inl (sample_message 7 ''{a}'')] (app_start 2 0)))) ''a'' \<noteq> None"
proof -
  let ?run = "consume sample_consumer script_env (\<lambda>w. [Op_GetOrder ''a'']) sample_app 2
     [Inl (sample_message 7 ''{a}'')] (app_start 2 0)"
  obtain cs s where run: "?run = (cs, s)" by (cases ?run)
  have "fst ?run = [Fetched (sample_message 7 ''{a}''), Saved ''{a}'' None, Committed (sample_message 7 ''{a}'') None,
      FetchFailed (Sentinel Context_Canceled)]"
    by code_simp
  then have "Committed (sample_message 7 ''{a}'') None \<in> set cs" by (simp add: run)
  moreover have "valid_order (\<lambda>_. True) (sample_order ''a'')" by code_simp
  moreover have "message_order uid_json ''{a}'' = Some (sample_order ''a'')"
    by (simp add: message_order_def uid_json_def)
  moreover have "\<not> errors_is e (Sentinel Validate_ErrInvalidOrder)" if "decode_order uid_json raw = Inl e" for raw e
    using that by (auto simp: uid_json_def split: if_splits)
  moreover have "fault healthy k = None" for k by (simp add: healthy_def)
  ultimately have "pg_view (snd s) ''a'' \<noteq> None"
    using committed_orders_are_stored [OF _ _ _ run, of "sample_message 7 ''{a}''" None] by simp
  then show ?thesis by (simp add: run)
qed

text \<open>the database follows the topic: after any run of the consumer, with any failures and any
  requests in between, the database holds under each UID the order of the message last accepted
  for it, up to what storing changes, and nothing else, and the cache agrees with it.\<close>
theorem database_is_last_accepted:
  assumes "\<forall>n. \<not> commit_lost env n" and "\<forall>w. list_all is_read (requests w)"
    and "consume c broker requests (app_service cenv (calm env) js parse_ok) n w (app_start cap d) = (cs, s)"
  shows "(\<forall>uid. rel_option pg_same (last_accepted js cs uid) (pg_view (snd s) uid)) \<and> cache_agrees s"
  using app_follows [OF assms] by (simp add: app.follows_def coherent_agrees)

lemma database_is_last_accepted_witness:
  "rel_option pg_same (Some (sample_order ''a''))
     (pg_view (snd (snd (consume sample_consumer script_env (\<lambda>w. [Op_GetOrder ''b'']) sample_app 3
        [Inl (sample_message 7 ''[a]''), Inr (Errorf ''timeout''), Inl (sample_message 8 ''{a}'')] (app_start 2 0)))) ''a'')"
proof -
  let ?run = "consume sample_consumer script_env (\<lambda>w. [Op_GetOrder ''b'']) sample_app 3
        [Inl (sample_message 7 ''[a]''), Inr (Errorf ''timeout''), Inl (sample_message 8 ''{a}'')] (app_start 2 0)"
  obtain cs s where run: "?run = (cs, s)" by (cases ?run)
  have "last_accepted uid_json (fst ?run) ''a'' = Some (sample_order ''a'')" by code_simp
  moreover have "\<forall>uid. rel_option pg_same (last_accepted uid_json cs uid) (pg_view (snd s) uid)"
    using database_is_last_accepted [OF _ _ run] by (simp add: healthy_def)
  ultimately show ?thesis by (metis run fst_conv snd_conv)
qed

lemma served_follows:
  assumes "app.follows cenv env js parse_ok s cs"
    and "serve (app_reader cenv env js parse_ok) uuid rq s = ((resp, logs), s1)"
    and "rq_route rq = R_Order uid"
  shows "(\<forall>ord. rs_body resp = Body_Order ord \<longrightarrow> rel_option pg_same (Some ord) (last_accepted js cs uid)) \<and>
    (rs_status resp = 404 \<longrightarrow> last_accepted js cs uid = None)"
proof -
  have f: "app.svc_inv s" "app.coherent s" "rel_option pg_same (last_accepted js cs uid) (pg_view (snd s) uid)"
    using assms(1) by (simp_all add: app.follows_def)
  note resp = order_response_at [OF f(1,2) assms(2,3)]
  have "rel_option pg_same (Some ord) (last_accepted js cs uid)" if body: "rs_body resp = Body_Order ord" for ord
  proof -
    obtain o1 where o1: "pg_view (snd s) uid = Some o1" "pg_same ord o1"
      using resp body by (auto simp: option_rel_Some1)
    from f(3) obtain o2 where "last_accepted js cs uid = Some o2" "pg_same o2 o1"
      unfolding o1(1) by (auto simp: option_rel_Some2)
    then show ?thesis using pgr.same_trans [OF o1(2) pgr.same_sym] by simp
  qed
  moreover have "last_accepted js cs uid = None" if "rs_status resp = 404"
    using resp that f(3) by simp
  ultimately show ?thesis by blast
qed

text \<open>What is read is what was last accepted: after any such run, an order served by
  \<open>GET /order/:id\<close>, from the cache or not, is the order of the message last accepted for the UID,
  and 404 is only answered when no message was accepted for it.\<close>
theorem served_order_is_last_accepted:
  assumes "\<forall>n. \<not> commit_lost env n" and "\<forall>w. list_all is_read (requests w)"
    and "consume c broker requests (app_service cenv (calm env) js parse_ok) n w (app_start cap d) = (cs, s)"
    and "serve (app_reader cenv env js parse_ok) uuid rq s = ((resp, logs), s1)"
    and "rq_route rq = R_Order uid"
  shows "(\<forall>ord. rs_body resp = Body_Order ord \<longrightarrow> rel_option pg_same (Some ord) (last_accepted js cs uid)) \<and>
    (rs_status resp = 404 \<longrightarrow> last_accepted js cs uid = None)"
  by (rule served_follows [OF app_follows [OF assms(1-3)] assms(4,5)])

lemma served_order_is_last_accepted_witness:
  "\<exists>resp ord. resp = fst (fst (serve (app_reader sample_cenv healthy uid_json (\<lambda>_. True)) ''u1'' (sample_request (R_Order ''a''))
      (snd (consume sample_consumer script_env (\<lambda>w. []) sample_app 2 [Inl (sample_message 7 ''{a}'')] (app_start 2 0))))) \<and>
    rs_body resp = Body_Order ord \<and> pg_same ord (sample_order ''a'')"
proof -
  let ?run = "consume sample_consumer script_env (\<lambda>w. []) sample_app 2 [Inl (sample_message 7 ''{a}'')] (app_start 2 0)"
  let ?serve = "serve (app_reader sample_cenv healthy uid_json (\<lambda>_. True)) ''u1'' (sample_request (R_Order ''a'')) (snd ?run)"
  obtain cs s where run: "?run = (cs, s)" by (cases ?run)
  obtain resp logs s1 where serve: "?serve = ((resp, logs), s1)" by (cases ?serve; cases "fst ?serve") auto
  have "last_accepted uid_json (fst ?run) ''a'' = Some (sample_order ''a'')" by code_simp
  then have last: "last_accepted uid_json cs ''a'' = Some (sample_order ''a'')" by (simp only: run fst_conv)
  have "case rs_body (fst (fst ?serve)) of Body_Order ord \<Rightarrow> True | _ \<Rightarrow> False" by code_simp
  then obtain ord where body: "rs_body resp = Body_Order ord" by (simp only: serve fst_conv split: body.splits)
  have "\<forall>n. \<not> commit_lost healthy n" by (simp add: healthy_def)
  from served_order_is_last_accepted [OF this _ run, of "''u1''" "sample_request (R_Order ''a'')" resp logs s1 "''a''"]
  have "rel_option pg_same (Some ord) (last_accepted uid_json cs ''a'')"
    using serve [unfolded run snd_conv] body by (simp add: sample_request_def)
  then have "pg_same ord (sample_order ''a'')" by (simp add: last)
  then show ?thesis using body by (intro exI [of _ resp] exI [of _ ord]) (simp only: serve fst_conv simp_thms)
qed

end
