(* ===== verification/Concurrency.thy ===== *)
theory Concurrency
  imports Pipeline
begin

text \<open>
  Requests in flight at the same time: \<open>GetOrder\<close> of \<open>internal/usecase/order_service.go\<close> looks
  into the cache, asks the repository and fills the cache in three calls, and \<open>SaveFromMessage\<close>
  stores and caches in two, so that the calls of several goroutines interleave.  The cache's
  calls are atomic under its mutex; the repository's calls are taken as atomic.
\<close>

section \<open>Tasks\<close>

text \<open>A goroutine by the call it makes next, or by the answer it has returned.\<close>

datatype task =
    T_Get string
  | T_Fetch string
  | T_Fill order
  | T_Answer "goerror + order option"
  | T_Save string
  | T_Store order
  | T_Saved "goerror option"

fun task_step :: "('c, 'r) order_service \<Rightarrow> task \<Rightarrow> 'c \<times> 'r \<Rightarrow> task \<times> 'c \<times> 'r" where
  "task_step svc (T_Get orderUID) (c, r) =
     (case cp_Get (svc_cache svc) orderUID c of
        ((ord, True), c1) \<Rightarrow> (T_Answer (Inr ord), (c1, r))
      | ((_, False), c1) \<Rightarrow> (T_Fetch orderUID, (c1, r)))"
| "task_step svc (T_Fetch orderUID) (c, r) =
     (case rp_GetByUID (svc_repo svc) orderUID r of
        (Inl err, r1) \<Rightarrow> (T_Answer (Inl err), (c, r1))
      | (Inr None, r1) \<Rightarrow> (T_Answer (Inr None), (c, r1))
      | (Inr (Some ord), r1) \<Rightarrow> (T_Fill ord, (c, r1)))"
| "task_step svc (T_Fill ord) (c, r) =
     (case cp_Set (svc_cache svc) (Some ord) c of (setErr, c1) \<Rightarrow> (T_Answer (Inr (Some ord)), (c1, r)))"
| "task_step svc (T_Save raw) (c, r) =
     (case decode_order (svc_json svc) raw of
        Inl err \<Rightarrow> (T_Saved (Some (Wrapf ''invalid json'' err)), (c, r))
      | Inr (ord, rest) \<Rightarrow>
          if decode_rest (svc_json svc) rest \<noteq> Some (Sentinel IO_EOF)
          then (T_Saved (Some (Errorf ''invalid json: trailing data'')), (c, r))
          else (case svc_validator svc (Some ord) of
                  Some err \<Rightarrow> (T_Saved (Some (Wrapf ''validation failed'' err)), (c, r))
                | None \<Rightarrow>
                    (case rp_Save (svc_repo svc) (Some ord) r of
                       (Some err, r1) \<Rightarrow> (T_Saved (Some (Wrapf ''failed to save order'' err)), (c, r1))
                     | (None, r1) \<Rightarrow> (T_Store ord, (c, r1)))))"
| "task_step svc (T_Store ord) (c, r) =
     (case cp_Set (svc_cache svc) (Some ord) c of (setErr, c1) \<Rightarrow> (T_Saved None, (c1, r)))"
| "task_step svc (T_Answer res) s = (T_Answer res, s)"
| "task_step svc (T_Saved res) s = (T_Saved res, s)"

fun finished :: "task \<Rightarrow> bool" where
  "finished (T_Answer res) = True"
| "finished (T_Saved res) = True"
| "finished _ = False"

fun initial :: "task \<Rightarrow> bool" where
  "initial (T_Get uid) = True"
| "initial (T_Save raw) = True"
| "initial _ = False"

text \<open>Left alone, a task does what the operation does in one go.\<close>

definition alone :: "('c, 'r) order_service \<Rightarrow> nat \<Rightarrow> task \<Rightarrow> 'c \<times> 'r \<Rightarrow> task \<times> 'c \<times> 'r" where
  "alone svc n t s = ((\<lambda>(t, s). task_step svc t s) ^^ n) (t, s)"

lemma alone_simps [simp]:
  "alone svc 0 t s = (t, s)"
  "alone svc (Suc n) t s = (case task_step svc t s of (t1, s1) \<Rightarrow> alone svc n t1 s1)"
  by (simp_all add: alone_def funpow_swap1 split: prod.split)

lemma GetOrder_steps:
  "alone svc 3 (T_Get uid) s = (T_Answer (fst (GetOrder svc uid s)), snd (GetOrder svc uid s))"
  by (cases s) (auto simp: GetOrder_def numeral_3_eq_3 split: prod.splits bool.splits sum.splits option.splits)

lemma SaveFromMessage_steps:
  "alone svc 2 (T_Save raw) s = (T_Saved (fst (SaveFromMessage svc raw s)), snd (SaveFromMessage svc raw s))"
  by (cases s) (auto simp: SaveFromMessage_def numeral_2_eq_2 split: prod.splits sum.splits option.splits)

text \<open>The steps of a request that is not disturbed are the operation: \<open>GetOrder\<close> in three steps and
  \<open>SaveFromMessage\<close> in two, with the same answer and the same state.\<close>
theorem tasks_are_the_operations:
  "alone svc 3 (T_Get uid) s = (T_Answer (fst (GetOrder svc uid s)), snd (GetOrder svc uid s)) \<and>
   alone svc 2 (T_Save raw) s = (T_Saved (fst (SaveFromMessage svc raw s)), snd (SaveFromMessage svc raw s))"
  using GetOrder_steps SaveFromMessage_steps by blast

section \<open>Interleavings\<close>

type_synonym ('c, 'r) sys_state = "task list \<times> 'c \<times> 'r"

text \<open>Configurations that are reached, each with those before it.\<close>

inductive reaches :: "('c, 'r) order_service \<Rightarrow> 'c \<times> 'r \<Rightarrow> ('c, 'r) sys_state list \<Rightarrow> ('c, 'r) sys_state \<Rightarrow> bool"
  for svc s0 where
  start: "reaches svc s0 [] ([], s0)"
| arrives: "reaches svc s0 h (ts, s) \<Longrightarrow> initial t \<Longrightarrow> reaches svc s0 ((ts, s) # h) (ts @ [t], s)"
| advances: "reaches svc s0 h (ts, s) \<Longrightarrow> i < length ts \<Longrightarrow> task_step svc (ts ! i) s = (t, s1) \<Longrightarrow>
    reaches svc s0 ((ts, s) # h) (ts[i := t], s1)"

text \<open>The same, by a schedule.\<close>

datatype event = Arrive task | Advance nat

fun sys_event :: "('c, 'r) order_service \<Rightarrow> event \<Rightarrow> ('c, 'r) sys_state \<Rightarrow> ('c, 'r) sys_state" where
  "sys_event svc (Arrive t) (ts, s) = (if initial t then (ts @ [t], s) else (ts, s))"
| "sys_event svc (Advance i) (ts, s) =
     (if i < length ts then (case task_step svc (ts ! i) s of (t, s1) \<Rightarrow> (ts[i := t], s1)) else (ts, s))"

definition sys_run :: "('c, 'r) order_service \<Rightarrow> event list \<Rightarrow> ('c, 'r) sys_state \<Rightarrow> ('c, 'r) sys_state" where
  "sys_run svc evs cfg = fold (sys_event svc) evs cfg"

lemma sys_run_simps:
  "sys_run svc [] cfg = cfg"
  "sys_run svc (ev # evs) cfg = sys_run svc evs (sys_event svc ev cfg)"
  "sys_run svc (evs @ [ev]) cfg = sys_event svc ev (sys_run svc evs cfg)"
  by (simp_all add: sys_run_def)

lemma sys_event_reaches:
  "reaches svc s0 h cfg \<Longrightarrow> \<exists>h1. reaches svc s0 h1 (sys_event svc ev cfg)"
  by (cases cfg; cases ev) (auto split: prod.split intro: reaches.intros)

lemma sys_run_reaches: "\<exists>h. reaches svc s0 h (sys_run svc evs ([], s0))"
proof (induction evs rule: rev_induct)
  case (snoc ev evs)
  then show ?case unfolding sys_run_simps by (blast intro: sys_event_reaches)
qed (auto simp: sys_run_simps intro: reaches.start)

lemma reaches_sys_run: "reaches svc s0 h cfg \<Longrightarrow> \<exists>evs. sys_run svc evs ([], s0) = cfg"
proof (induction rule: reaches.induct)
  case (arrives h ts s t)
  then obtain evs where "sys_run svc evs ([], s0) = (ts, s)" by blast
  then have "sys_run svc (evs @ [Arrive t]) ([], s0) = (ts @ [t], s)"
    using arrives(2) unfolding sys_run_simps by simp
  then show ?case by blast
next
  case (advances h ts s i t s1)
  then obtain evs where "sys_run svc evs ([], s0) = (ts, s)" by blast
  then have "sys_run svc (evs @ [Advance i]) ([], s0) = (ts[i := t], s1)"
    using advances(2,3) unfolding sys_run_simps by simp
  then show ?case by blast
qed (auto intro: exI [of _ "[]"] simp: sys_run_simps)

text \<open>What a task carries between two of its calls.\<close>

fun carries :: "task \<Rightarrow> order option" where
  "carries (T_Fill ord) = Some ord"
| "carries (T_Store ord) = Some ord"
| "carries _ = None"

section \<open>Tasks that do not overlap\<close>

text \<open>A save begins only when no task carries an order with the same UID to the cache.\<close>

fun quiet :: "json_lib \<Rightarrow> event \<Rightarrow> task list \<Rightarrow> bool" where
  "quiet js (Arrive t) ts = True"
| "quiet js (Advance i) ts =
     (if i < length ts
      then (case ts ! i of
              T_Save raw \<Rightarrow>
                (case message_order js raw of
                   None \<Rightarrow> True
                 | Some ord \<Rightarrow> list_all (\<lambda>t. map_option OrderUID (carries t) \<noteq> Some (OrderUID ord)) ts)
            | _ \<Rightarrow> True)
      else True)"

fun apart :: "('c, 'r) order_service \<Rightarrow> event list \<Rightarrow> ('c, 'r) sys_state \<Rightarrow> bool" where
  "apart svc [] cfg = True"
| "apart svc (ev # evs) cfg \<longleftrightarrow> quiet (svc_json svc) ev (fst cfg) \<and> apart svc evs (sys_event svc ev cfg)"

definition late_fill_schedule :: "string \<Rightarrow> string \<Rightarrow> event list" where
  "late_fill_schedule uid raw =
     [Arrive (T_Get uid), Advance 0, Advance 0, Arrive (T_Save raw), Advance 1, Advance 1, Advance 0]"

section \<open>What is cached was stored\<close>

context service
begin

text \<open>The versions of the orders that the repository held at some moment of a history.\<close>

definition held :: "('c, 'r) sys_state list \<Rightarrow> string \<Rightarrow> order \<Rightarrow> bool" where
  "held h uid ord \<longleftrightarrow> (\<exists>cfg\<in>set h. rel_option same (Some ord) (rview (snd (snd cfg)) uid))"

lemma held_Cons [simp]:
  "held (cfg # h) uid ord \<longleftrightarrow> rel_option same (Some ord) (rview (snd (snd cfg)) uid) \<or> held h uid ord"
  by (auto simp: held_def)

lemma held_clone: "held h uid ord \<Longrightarrow> held h uid (clone_of ord)"
  using same_cloned by (auto simp: held_def option_rel_Some1)

definition carries_named :: "task \<Rightarrow> bool" where
  "carries_named t \<longleftrightarrow> (\<forall>ord. carries t = Some ord \<longrightarrow> OrderUID ord \<noteq> [])"

lemma cache_call_effect:
  assumes "svc_inv (c, r)" and "OrderUID ord \<noteq> []" and "cp_Set cp (Some ord) c = (e, c1)"
  shows "svc_inv (c1, r)"
    and "cview c1 k = Some x \<Longrightarrow> k = OrderUID ord \<and> x = clone_of ord \<or> k \<noteq> OrderUID ord \<and> cview c k = Some x"
  using assms cache_set_inv [of c "Some ord" e c1] cache.set_view_mem [of c ord k x]
  by (auto simp: svc_inv_def)

text \<open>The four kinds of steps, by what they do to the repository, the cache and the task.\<close>

lemma task_step_cases:
  assumes "svc_inv s" and "carries_named t" and "task_step svc t s = (t1, s1)"
  obtains (saved) raw ord ord' where "t = T_Save raw" "message_order (svc_json svc) raw = Some ord"
      "t1 = T_Store ord" "OrderUID ord \<noteq> []" "same ord ord'" "svc_inv s1" "fst s1 = fst s"
      "rview (snd s1) = (rview (snd s))(OrderUID ord \<mapsto> ord')"
  | (rejected) raw where "t = T_Save raw" "carries t1 = None" "svc_inv s1" "fst s1 = fst s"
      "s1 = snd (SaveFromMessage svc raw s)" "fst (SaveFromMessage svc raw s) \<noteq> None"
  | (cached) ord where "carries t = Some ord" "carries t1 = None" "svc_inv s1"
      "rview (snd s1) = rview (snd s)"
      "\<And>k x. cview (fst s1) k = Some x \<Longrightarrow>
         k = OrderUID ord \<and> x = clone_of ord \<or> k \<noteq> OrderUID ord \<and> cview (fst s) k = Some x"
  | (looked) "carries t = None" "svc_inv s1" "rview (snd s1) = rview (snd s)"
      "\<And>k x. cview (fst s1) k = Some x \<Longrightarrow> cview (fst s) k = Some x"
      "\<And>ord. carries t1 = Some ord \<Longrightarrow> OrderUID ord \<noteq> [] \<and>
         rel_option same (Some ord) (rview (snd s) (OrderUID ord))"
proof -
  obtain c r where s: "s = (c, r)" by (cases s)
  have inv: "cinv c" "rinv r" using assms(1) by (simp_all add: s svc_inv_def)
  note step = assms(3) [unfolded s]
  show thesis
  proof (cases t)
    case (T_Get uid)
    obtain p b c1 where get: "cp_Get cp uid c = ((p, b), c1)" by (metis prod.exhaust)
    have "svc_inv (c1, r)" using cache_get_inv [OF inv(1) get] inv(2) by (simp add: svc_inv_def)
    moreover have "cview c1 k = Some x \<Longrightarrow> cview c k = Some x" for k x
      using cache.get_view_mem [OF inv(1), of uid k x] get by simp
    ultimately show thesis
      using step get by (intro looked) (auto simp: T_Get s parts split: bool.splits)
  next
    case (T_Fetch uid)
    obtain res r1 where get: "rp_GetByUID rp uid r = (res, r1)" by (cases "rp_GetByUID rp uid r")
    have r1: "svc_inv (c, r1)" "rview r1 = rview r"
      using repo_get_inv [OF inv(2) get] repo.get_view [OF inv(2), of uid] inv(1) get by (simp_all add: svc_inv_def)
    have "OrderUID ord \<noteq> [] \<and> rel_option same (Some ord) (rview r (OrderUID ord))" if "res = Inr (Some ord)" for ord
    proof -
      have "rel_option same (Some ord) (rview r uid)" using repo.get_ok [OF inv(2), of uid] get that by simp
      moreover from this have "OrderUID ord = uid" "uid \<noteq> []"
        using repo.view_key [OF inv(2)] repo.same_uid by (auto simp: option_rel_Some1)
      ultimately show ?thesis by simp
    qed
    then show thesis
      using step get r1 by (intro looked) (auto simp: T_Fetch s parts split: sum.splits option.splits)
  next
    case (T_Fill ord)
    obtain e c1 where set: "cp_Set cp (Some ord) c = (e, c1)" by (cases "cp_Set cp (Some ord) c")
    have "OrderUID ord \<noteq> []" using assms(2) by (simp add: T_Fill carries_named_def)
    note eff = cache_call_effect [OF assms(1) [unfolded s] this set]
    have "t1 = T_Answer (Inr (Some ord))" "s1 = (c1, r)" using step set by (simp_all add: T_Fill parts)
    then show thesis using eff by (intro cached [of ord]) (simp_all add: T_Fill s)
  next
    case (T_Store ord)
    obtain e c1 where set: "cp_Set cp (Some ord) c = (e, c1)" by (cases "cp_Set cp (Some ord) c")
    have "OrderUID ord \<noteq> []" using assms(2) by (simp add: T_Store carries_named_def)
    note eff = cache_call_effect [OF assms(1) [unfolded s] this set]
    have "t1 = T_Saved None" "s1 = (c1, r)" using step set by (simp_all add: T_Store parts)
    then show thesis using eff by (intro cached [of ord]) (simp_all add: T_Store s)
  next
    case (T_Save raw)
    from assms(1) [unfolded s] show thesis
    proof (cases rule: SaveFromMessage_cases [where raw = raw])
      case (saved ord r1 c1)
      obtain ord' where "same ord ord'" "rview r1 = (rview r)(OrderUID ord \<mapsto> ord')"
        using repo.save_ok [OF inv(2) saved(4)] by blast
      moreover have "t1 = T_Store ord" "s1 = (c, r1)"
        using step saved(1,2,4) by (auto simp: T_Save parts decoded_def split: sum.splits if_splits)
      moreover have "svc_inv (c, r1)" using repo_save_inv [OF inv(2) saved(4)] inv(1) by (simp add: svc_inv_def)
      ultimately show thesis
        using saved(1,3) by (intro that(1) [of raw ord ord']) (simp_all add: T_Save s decoded_message)
    next
      case (not_saved ord err r1)
      then have "t1 = T_Saved (Some (Wrapf ''failed to save order'' err))" "s1 = (c, r1)"
        using step by (auto simp: T_Save parts decoded_def split: sum.splits if_splits)
      then show thesis
        using not_saved(4) SaveFromMessage_inv [OF assms(1), of raw]
        by (intro rejected [of raw]) (simp_all add: T_Save s)
    next
      case (invalid ord err)
      then have "t1 = T_Saved (Some (Wrapf ''validation failed'' err))" "s1 = s"
        using step by (auto simp: T_Save s parts decoded_def split: sum.splits if_splits)
      then show thesis
        using invalid(3) assms(1) by (intro rejected [of raw]) (simp_all add: T_Save s)
    next
      case (malformed err)
      then have "carries t1 = None" "s1 = s"
        using step by (auto simp: T_Save s parts decoded_def split: sum.splits if_splits)
      then show thesis
        using malformed(2) assms(1) by (intro rejected [of raw]) (simp_all add: T_Save s)
    qed
  qed (use step assms(1) s in \<open>auto intro: looked\<close>)
qed

text \<open>In a history, what is cached or carried was held by the repository at some moment.\<close>

definition versions_ok :: "('c, 'r) sys_state list \<Rightarrow> ('c, 'r) sys_state \<Rightarrow> bool" where
  "versions_ok h cfg \<longleftrightarrow>
     svc_inv (snd cfg) \<and> list_all carries_named (fst cfg) \<and>
     (\<forall>t\<in>set (fst cfg). \<forall>ord. carries t = Some ord \<longrightarrow> held (cfg # h) (OrderUID ord) ord) \<and>
     (\<forall>uid ord. cview (fst (snd cfg)) uid = Some ord \<longrightarrow> held (cfg # h) uid ord)"

lemma initial_carries: "initial t \<Longrightarrow> carries t = None"
  by (cases t) simp_all

lemma advance_versions:
  assumes ok: "versions_ok h (ts, s)" and i: "i < length ts" and step: "task_step svc (ts ! i) s = (t, s1)"
  shows "versions_ok ((ts, s) # h) (ts[i := t], s1)"
proof -
  have inv: "svc_inv s" and named: "list_all carries_named ts" using ok by (simp_all add: versions_ok_def)
  have mem: "ts ! i \<in> set ts" using i by simp
  then have ni: "carries_named (ts ! i)" using named by (simp add: list_all_iff)
  have carried: "held ((ts, s) # h) (OrderUID ord) ord" if "carries (ts ! i) = Some ord" for ord
    using ok mem that unfolding versions_ok_def by auto
  have cached: "held ((ts, s) # h) uid ord" if "cview (fst s) uid = Some ord" for uid ord
    using ok that unfolding versions_ok_def by auto
  let ?H = "(ts[i := t], s1) # (ts, s) # h"
  have "svc_inv s1 \<and> (\<forall>ord. carries t = Some ord \<longrightarrow> OrderUID ord \<noteq> [] \<and> held ?H (OrderUID ord) ord) \<and>
    (\<forall>uid ord. cview (fst s1) uid = Some ord \<longrightarrow> held ?H uid ord)"
    using inv ni step
  proof (cases rule: task_step_cases)
    case (saved raw ord ord')
    then show ?thesis using cached by auto
  next
    case (rejected raw)
    then show ?thesis using cached by auto
  next
    case (cached ord)
    then show ?thesis
      using carried [OF cached(1)] held_clone [of "(ts, s) # h"] \<open>\<And>uid ord. cview (fst s) uid = Some ord \<Longrightarrow> _\<close>
      by fastforce
  next
    case looked
    then show ?thesis using cached by auto
  qed
  moreover have "held ?H (OrderUID ord) ord" if "t' \<in> set ts" "carries t' = Some ord" for t' ord
    using ok that unfolding versions_ok_def by auto
  ultimately show ?thesis
    using named unfolding versions_ok_def
    by (auto simp: list_all_iff carries_named_def dest!: set_update_subset_insert [THEN subsetD])
qed

lemma reaches_versions:
  assumes "reaches svc s0 h cfg" and "svc_inv s0" and "coherent s0"
  shows "versions_ok h cfg"
  using assms(1)
proof (induction rule: reaches.induct)
  case start
  show ?case
    using assms(2,3) by (auto simp: versions_ok_def held_def coherent_def option_rel_Some1)
next
  case (arrives h ts s t)
  then show ?case
    using initial_carries [OF arrives(2)] by (auto simp: versions_ok_def carries_named_def)
qed (rule advance_versions)

lemma update_keeps: "x \<in> set xs \<Longrightarrow> x \<noteq> xs ! i \<Longrightarrow> x \<in> set (xs[i := y])"
  by (metis in_set_conv_nth length_list_update nth_list_update_neq)

definition storing :: "task list \<Rightarrow> string \<Rightarrow> bool" where
  "storing ts uid \<longleftrightarrow> (\<exists>ord. T_Store ord \<in> set ts \<and> OrderUID ord = uid)"

lemma storing_append: "storing ts uid \<Longrightarrow> storing (ts @ [t]) uid"
  by (auto simp: storing_def)

lemma storing_update:
  assumes "storing ts uid" and "\<And>ord. ts ! i = T_Store ord \<Longrightarrow> OrderUID ord \<noteq> uid"
  shows "storing (ts[i := t]) uid"
  using assms update_keeps [of _ ts i t] unfolding storing_def by metis

text \<open>Requests do not overlap: the cache is behind only where a save is about to fill it.\<close>

definition fresh_ok :: "('c, 'r) sys_state \<Rightarrow> bool" where
  "fresh_ok cfg \<longleftrightarrow>
     svc_inv (snd cfg) \<and> list_all carries_named (fst cfg) \<and>
     (\<forall>t\<in>set (fst cfg). \<forall>ord. carries t = Some ord \<longrightarrow>
        rel_option same (Some ord) (rview (snd (snd cfg)) (OrderUID ord))) \<and>
     (\<forall>uid ord. cview (fst (snd cfg)) uid = Some ord \<longrightarrow>
        rel_option same (Some ord) (rview (snd (snd cfg)) uid) \<or>
        storing (fst cfg) uid)"

lemma fresh_okD:
  assumes "fresh_ok (ts, s)"
  shows "svc_inv s" and "list_all carries_named ts"
    and "t \<in> set ts \<Longrightarrow> carries t = Some ord \<Longrightarrow> rel_option same (Some ord) (rview (snd s) (OrderUID ord))"
    and "cview (fst s) uid = Some ord \<Longrightarrow> rel_option same (Some ord) (rview (snd s) uid) \<or> storing ts uid"
  using assms by (auto simp: fresh_ok_def)

lemma same_clone_view: "rel_option same (Some ord) v \<Longrightarrow> rel_option same (Some (clone_of ord)) v"
  using same_cloned by (auto simp: option_rel_Some1)

lemma advance_fresh:
  assumes ok: "fresh_ok (ts, s)" and i: "i < length ts" and step: "task_step svc (ts ! i) s = (t, s1)"
    and quiet: "quiet (svc_json svc) (Advance i) ts"
    and definite: "\<And>raw. fst (SaveFromMessage svc raw s) \<noteq> None \<Longrightarrow>
          rview (snd (snd (SaveFromMessage svc raw s))) = rview (snd s)"
  shows "fresh_ok (ts[i := t], s1)"
proof -
  note okD = fresh_okD [OF ok]
  have mem: "ts ! i \<in> set ts" using i by simp
  then have ni: "carries_named (ts ! i)" using okD(2) by (simp add: list_all_iff)
  have sub: "x \<in> set (ts[i := t]) \<Longrightarrow> x = t \<or> x \<in> set ts" for x
    using set_update_subset_insert [of ts i t] by auto
  let ?agree = "\<lambda>s uid ord. rel_option same (Some ord) (rview (snd s) uid)"
  have "svc_inv s1 \<and> (\<forall>ord. carries t = Some ord \<longrightarrow> OrderUID ord \<noteq> [] \<and> ?agree s1 (OrderUID ord) ord) \<and>
    (\<forall>t'\<in>set ts. \<forall>ord. carries t' = Some ord \<longrightarrow> ?agree s1 (OrderUID ord) ord) \<and>
    (\<forall>uid x. cview (fst s1) uid = Some x \<longrightarrow> ?agree s1 uid x \<or> storing (ts[i := t]) uid)"
    using okD(1) ni step
  proof (cases rule: task_step_cases)
    case (saved raw ord ord')
    have other: "OrderUID x \<noteq> OrderUID ord" if "t' \<in> set ts" "carries t' = Some x" for t' x
      using quiet i saved(1,2) that by (auto simp: list_all_iff)
    have "storing (ts[i := t]) (OrderUID ord)"
      using saved(3) i by (auto simp: storing_def intro: set_update_memI)
    moreover have "storing (ts[i := t]) uid" if "storing ts uid" for uid
      using that by (rule storing_update) (simp add: saved(1))
    ultimately have "?agree s1 uid x \<or> storing (ts[i := t]) uid" if "cview (fst s1) uid = Some x" for uid x
      using okD(4) [of uid x] that saved(7,8) by (cases "uid = OrderUID ord") auto
    moreover have "?agree s1 (OrderUID x) x" if "t' \<in> set ts" "carries t' = Some x" for t' x
      using okD(3) [OF that] other [OF that] saved(8) by simp
    ultimately show ?thesis using saved(3-6,8) by simp
  next
    case (rejected raw)
    have view: "rview (snd s1) = rview (snd s)" using rejected(5,6) definite by simp
    have "storing (ts[i := t]) uid" if "storing ts uid" for uid
      using that by (rule storing_update) (simp add: rejected(1))
    then have "?agree s1 uid x \<or> storing (ts[i := t]) uid" if "cview (fst s1) uid = Some x" for uid x
      using okD(4) [of uid x] that by (simp add: view rejected(4)) blast
    then show ?thesis using rejected(2,3) okD(3) by (simp add: view)
  next
    case (cached ord)
    have clone: "?agree s (OrderUID ord) (clone_of ord)"
      using okD(3) [OF mem cached(1)] by (rule same_clone_view)
    have "storing (ts[i := t]) uid" if "storing ts uid" "uid \<noteq> OrderUID ord" for uid
      using that(1) by (rule storing_update) (use cached(1) that(2) in auto)
    then have "?agree s1 uid x \<or> storing (ts[i := t]) uid" if "cview (fst s1) uid = Some x" for uid x
      using cached(5) [OF that] clone okD(4) [of uid x] by (auto simp: cached(4))
    then show ?thesis using cached(2,3) okD(3) by (simp add: cached(4))
  next
    case looked
    have "storing (ts[i := t]) uid" if "storing ts uid" for uid
      using that by (rule storing_update) (use looked(1) in auto)
    then have "?agree s1 uid x \<or> storing (ts[i := t]) uid" if "cview (fst s1) uid = Some x" for uid x
      using looked(4) [OF that] okD(4) [of uid x] by (auto simp: looked(3))
    then show ?thesis using looked(2,5) okD(3) by (simp add: looked(3))
  qed
  then show ?thesis
    using okD(2) sub unfolding fresh_ok_def by (auto simp: list_all_iff carries_named_def dest!: sub)
qed

lemma event_fresh:
  assumes "fresh_ok cfg" and "quiet (svc_json svc) ev (fst cfg)"
    and "\<And>raw s. svc_inv s \<Longrightarrow> fst (SaveFromMessage svc raw s) \<noteq> None \<Longrightarrow>
          rview (snd (snd (SaveFromMessage svc raw s))) = rview (snd s)"
  shows "fresh_ok (sys_event svc ev cfg)"
proof -
  obtain ts s where cfg: "cfg = (ts, s)" by (cases cfg)
  have ok: "fresh_ok (ts, s)" using assms(1) by (simp add: cfg)
  show ?thesis
  proof (cases ev)
    case (Arrive t)
    have "initial t \<Longrightarrow> carries_named t" using initial_carries by (simp add: carries_named_def)
    moreover have "fresh_ok (ts @ [t], s)" if "initial t"
      using fresh_okD [OF ok] initial_carries [OF that] calculation that storing_append [of ts _ t]
      unfolding fresh_ok_def by simp blast
    ultimately show ?thesis using ok by (simp add: Arrive cfg)
  next
    case (Advance i)
    then show ?thesis
      using ok advance_fresh [OF ok, of i] assms(2) assms(3) [OF fresh_okD(1) [OF ok]]
      by (auto simp: cfg simp del: quiet.simps split: prod.split)
  qed
qed

lemma apart_fresh:
  assumes "fresh_ok cfg" and "apart svc evs cfg"
    and "\<And>raw s. svc_inv s \<Longrightarrow> fst (SaveFromMessage svc raw s) \<noteq> None \<Longrightarrow>
          rview (snd (snd (SaveFromMessage svc raw s))) = rview (snd s)"
  shows "fresh_ok (sys_run svc evs cfg)"
  using assms(1,2)
proof (induction evs arbitrary: cfg)
  case (Cons ev evs)
  then show ?case using event_fresh [OF Cons.prems(1) _ assms(3)] by (simp add: sys_run_simps)
qed (simp add: sys_run_simps)

lemma fresh_finished:
  assumes "fresh_ok (ts, s)" and "list_all finished ts"
  shows "coherent s"
proof -
  have "\<not> storing ts uid" for uid using assms(2) by (auto simp: storing_def list_all_iff)
  then show ?thesis using fresh_okD(4) [OF assms(1)] by (auto simp: coherent_def option_rel_Some1)
qed

section \<open>When they do\<close>

text \<open>A save that comes between a fetch and its fill.\<close>

lemma late_fill:
  assumes inv: "svc_inv (c, r)" and miss: "\<not> snd (fst (cp_Get cp uid c))"
    and msg: "message_order (svc_json svc) raw = Some new" "OrderUID new = uid"
    and run: "sys_run svc (late_fill_schedule uid raw) ([], c, r) =
        ([T_Answer (Inr (Some old)), T_Saved None], c1, r1)"
  shows "cview c1 uid = Some (clone_of old) \<and> rel_option same (Some old) (rview r uid) \<and>
    rel_option same (Some new) (rview r1 uid)"
proof -
  obtain p c0 where get: "cp_Get cp uid c = ((p, False), c0)" using miss by (metis prod.exhaust fst_conv snd_conv)
  obtain res r0 where fetch: "rp_GetByUID rp uid r = (res, r0)" by (cases "rp_GetByUID rp uid r")
  have ri: "cinv c" "rinv r" using inv by (simp_all add: svc_inv_def)
  note step_simps = late_fill_schedule_def sys_run_simps parts get fetch
  have "res = Inr (Some old)"
    using run by (auto simp: step_simps split: sum.splits option.splits prod.splits if_splits)
  then have old: "rel_option same (Some old) (rview r uid)"
    using repo.get_ok [OF ri(2), of uid "Some old"] fetch by simp
  then have uid: "OrderUID old = uid" "uid \<noteq> []"
    using repo.view_key [OF ri(2)] repo.same_uid by (auto simp: option_rel_Some1)
  have i0: "cinv c0" "rinv r0" using cache_get_inv [OF ri(1) get] repo_get_inv [OF ri(2) fetch] .
  obtain rest where dec: "decode_order (svc_json svc) raw = Inr (new, rest)"
      "decode_rest (svc_json svc) rest = Some (Sentinel IO_EOF)"
    using msg(1) by (auto simp: message_order_def split: sum.splits if_splits)
  obtain e2 c2 where set2: "cp_Set cp (Some new) c0 = (e2, c2)" by (cases "cp_Set cp (Some new) c0")
  obtain e3 c3 where set3: "cp_Set cp (Some old) c2 = (e3, c3)" by (cases "cp_Set cp (Some old) c2")
  have "rp_Save rp (Some new) r0 = (None, r1)" "c3 = c1"
    using run \<open>res = _\<close>
    by (auto simp: step_simps dec set2 set3 split: option.splits prod.splits)
  moreover have "cinv c2" by (rule cache_set_inv [OF i0(1) set2])
  moreover have "cview c3 uid = Some (clone_of old)"
    using cache.set_stores [OF \<open>cinv c2\<close>, of old] uid set3 by simp
  ultimately show ?thesis
    using old repo.save_ok [OF i0(2), of new r1] msg(2) by auto
qed

end

section \<open>The wired service\<close>




definition sample_schedule :: "event list" where
  "sample_schedule = [Arrive (T_Get ''a''), Arrive (T_Save ''{a}''), Advance 1, Advance 0, Advance 1, Advance 0, Advance 0]"


text \<open>C22: otherwise the cache is left behind: when a message is saved between a reader's query and its fill
  of the cache, both succeed, the database has the new order and the cache the old one.\<close>
theorem late_fill_leaves_old_order:
  assumes "cache_ok c" and "pg_ok r" and "\<not> snd (fst (cp_Get (lru_port cenv) uid c))"
    and "message_order js raw = Some new" and "OrderUID new = uid"
    and "sys_run (app_service cenv (calm env) js parse_ok) (late_fill_schedule uid raw) ([], c, r) =
        ([T_Answer (Inr (Some old)), T_Saved None], c1, r1)"
  shows "cached c1 uid = Some (clone_of old) \<and> rel_option pg_same (Some old) (pg_view r uid) \<and>
    rel_option pg_same (Some new) (pg_view r1 uid)"
  using assms by (intro app.late_fill) (simp_all add: app.svc_inv_def)

text \<open>Documents that name the version of one order.\<close>

definition version_json :: json_lib where
  "version_json =
     \<lparr>decode_order = (\<lambda>s. Inr ((sample_order ''a'')\<lparr>TrackNumber := s\<rparr>, [])),
      decode_rest = (\<lambda>s. Some (Sentinel IO_EOF)), json_Marshal = (\<lambda>ord. TrackNumber ord)\<rparr>"

abbreviation version_app :: "(cache_state, pg) order_service" where
  "version_app \<equiv> app_service sample_cenv (calm healthy) version_json (\<lambda>_. True)"

text \<open>The first version is stored, and the cache is empty after a restart.\<close>

definition restarted :: app_state where
  "restarted = ((NewLRUCacheTTL 2 0, 0), snd (snd (SaveFromMessage version_app ''1'' (app_start 2 0))))"

lemma late_fill_leaves_old_order_witness:
  "\<not> cache_agrees (snd (sys_run version_app (late_fill_schedule ''a'' ''2'') ([], restarted)))"
proof -
  let ?c = "(NewLRUCacheTTL 2 0, 0)"
  let ?r = "snd restarted"
  let ?run = "sys_run version_app (late_fill_schedule ''a'' ''2'') ([], restarted)"
  let ?old = "(sample_order ''a'')\<lparr>TrackNumber := ''1''\<rparr>"
  let ?new = "(sample_order ''a'')\<lparr>TrackNumber := ''2''\<rparr>"
  obtain ts c1 r1 where run: "?run = (ts, c1, r1)" by (cases ?run) auto
  have "fst ?run = [T_Answer (Inr (Some ?old)), T_Saved None]" by code_simp
  then have run': "sys_run version_app (late_fill_schedule ''a'' ''2'') ([], ?c, ?r) =
      ([T_Answer (Inr (Some ?old)), T_Saved None], c1, r1)"
    using run by (simp add: restarted_def)
  have "app.svc_inv (app_start 2 0)" by (rule app_start_inv)
  then have "pg_ok ?r"
    using app.SaveFromMessage_inv [of "app_start 2 0" sample_cenv healthy version_json "\<lambda>_. True" "''1''"]
    by (simp add: restarted_def app.svc_inv_def)
  moreover have "cache_ok ?c" by (simp add: cache_ok_def New_inv)
  moreover have "\<not> snd (fst (cp_Get (lru_port sample_cenv) ''a'' ?c))" by code_simp
  moreover have "message_order version_json ''2'' = Some ?new" by (simp add: message_order_def version_json_def)
  ultimately have "cached c1 ''a'' = Some (clone_of ?old)" "rel_option pg_same (Some ?new) (pg_view r1 ''a'')"
    using late_fill_leaves_old_order [OF _ _ _ _ _ run'] by simp_all
  moreover have "\<not> pg_same (clone_of ?old) ?new"
  proof
    assume "pg_same (clone_of ?old) ?new"
    then have "TrackNumber (fst (pg_core (clone_of ?old))) = TrackNumber (fst (pg_core ?new))"
      by (simp only: pg_same_def)
    then show False by (simp add: pg_core_def clone_of_eq)
  qed
  moreover have "pg_same (clone_of ?old) ?new"
    if "rel_option pg_same (Some (clone_of ?old)) (pg_view r1 ''a'')" "rel_option pg_same (Some ?new) (pg_view r1 ''a'')"
    using that by (auto simp: option_rel_Some1 pg_same_def)
  ultimately show ?thesis unfolding run cache_agrees_def snd_conv fst_conv by blast
qed

end
