(* ===== verification/Repo_Torn.thy ===== *)
theory Repo_Torn
  imports Repo_Props
begin

text \<open>
  Reading while another session writes: \<open>GetByUID\<close> (\<open>order_repository.go\<close>) runs its four queries
  outside a transaction, each on the database as it is by then.
\<close>

text \<open>C38: when another session saves a new version of an order between the first two queries of
  \<open>GetByUID\<close>, the answer, without an error, is an order that was never stored: the order's own
  fields of the old version with delivery, payment and items of the new one.\<close>
theorem GetByUID_mixes_versions:
  assumes "db_view (pg_db s) uid = Some old"
    and "OrderUID new = uid" and "savable env new (pg_db s)"
    and "reads_ok env (pg_n s)" and "text_ok env uid"
    and "others env = (\<lambda>n d. if n = Suc (pg_n s) then save_db new d else d)"
  shows "\<exists>p. fst (GetByUID env uid s) = Inr (Some p) \<and>
    same_items p (old\<lparr>Delivery := Delivery new, Payment := Payment (kept (pg_db s) new),
                      Items := append_nil (item_list new)\<rparr>)"
proof -
  let ?d = "save_db new (pg_db s)"
  obtain row where row: "find (\<lambda>r. ro_uid r = uid) (t_orders (pg_db s)) = Some row"
    and old: "old = with_parts (map_of (t_deliveries (pg_db s)) uid) (map_of (t_payments (pg_db s)) uid)
        (append_nil (stored_items (pg_db s) uid)) (base_order row)"
    using assms(1) by (auto simp: db_view_def)
  have ok: "fault env k = None" "row_fault env k = None" if "pg_n s \<le> k" for k
    using assms(4) that by (simp_all add: reads_ok_def)
  have sel: "select env label [uid] f s' = (Inr (f (others env (pg_n s') (pg_db s'))),
      \<lparr>pg_db = others env (pg_n s') (pg_db s'), pg_n = Suc (pg_n s')\<rparr>)" if "pg_n s \<le> pg_n s'"
    for label and f :: "db \<Rightarrow> 'x" and s'
    using that assms(5) by (simp add: select_def Let_def ok)
  have parts: "map_of (t_deliveries ?d) uid = Some (Delivery new)"
    "map_of (t_payments ?d) uid = Some (Payment (kept (pg_db s) new))"
    using assms(2) by (simp_all only: parts_save) simp_all
  have items: "mset (items_of env n uid ?d) = mset (item_list new)" for n
    unfolding mset_items_of stored_items_save using assms(2) by simp
  have run: "fst (GetByUID env uid s) = Inr (Some (with_parts (Some (Delivery new))
      (Some (Payment (kept (pg_db s) new))) (append_nil (items_of env (Suc (Suc (Suc (pg_n s)))) uid ?d)) (base_order row)))"
    by (simp add: GetByUID_def sel row parts delivered_def ok assms(6) del: save_db_simps)
  have "same_items (with_parts (Some (Delivery new)) (Some (Payment (kept (pg_db s) new)))
      (append_nil (items_of env k uid ?d)) (base_order row))
     (old\<lparr>Delivery := Delivery new, Payment := Payment (kept (pg_db s) new), Items := append_nil (item_list new)\<rparr>)" for k
    by (simp add: same_items_def items with_parts_def old)
  with run show ?thesis by blast
qed

text \<open>A second session that saves order A with another track number while A is read.\<close>

definition second_version :: order where
  "second_version = (sample_order ''A'')\<lparr>TrackNumber := ''T2'', Delivery := (Delivery (sample_order ''A''))\<lparr>dCity := ''X''\<rparr>\<rparr>"

definition one_saved :: pg where
  "one_saved = snd (Save healthy (Some (sample_order ''A'')) new_pg)"

definition busy :: pg_env where
  "busy = healthy\<lparr>others := (\<lambda>n d. if n = Suc (pg_n one_saved) then save_db second_version d else d)\<rparr>"

lemma GetByUID_mixes_versions_witness:
  "\<exists>p. fst (GetByUID busy ''A'' one_saved) = Inr (Some p) \<and>
     TrackNumber p = TrackNumber (sample_order ''A'') \<and> dCity (Delivery p) = ''X''"
proof -
  obtain old where old: "db_view (pg_db one_saved) ''A'' = Some old" "TrackNumber old = TrackNumber (sample_order ''A'')"
  proof -
    have "case db_view (pg_db one_saved) ''A'' of Some old \<Rightarrow> TrackNumber old = TrackNumber (sample_order ''A'') | None \<Rightarrow> False"
      by code_simp
    then show thesis using that by (auto split: option.splits)
  qed
  have "savable busy second_version (pg_db one_saved)" by code_simp
  moreover have "reads_ok busy (pg_n one_saved)" by (simp add: reads_ok_def busy_def healthy_def)
  moreover have "text_ok busy ''A''" by (simp add: busy_def healthy_def)
  moreover have "OrderUID second_version = ''A''" by (simp add: second_version_def)
  ultimately obtain p where p: "fst (GetByUID busy ''A'' one_saved) = Inr (Some p)"
    "same_items p (old\<lparr>Delivery := Delivery second_version, Payment := Payment (kept (pg_db one_saved) second_version),
        Items := append_nil (item_list second_version)\<rparr>)"
    using GetByUID_mixes_versions [OF old(1), of second_version busy] by (auto simp: busy_def)
  let ?q = "old\<lparr>Delivery := Delivery second_version, Payment := Payment (kept (pg_db one_saved) second_version),
      Items := None\<rparr>"
  have "p\<lparr>Items := None\<rparr> = ?q" using p(2) by (simp add: same_items_def)
  then have "TrackNumber (p\<lparr>Items := None\<rparr>) = TrackNumber ?q" "Delivery (p\<lparr>Items := None\<rparr>) = Delivery ?q"
    by (simp_all only:)
  then have "TrackNumber p = TrackNumber old" "Delivery p = Delivery second_version" by simp_all
  with p(1) old(2) show ?thesis by (simp add: second_version_def)
qed

end
