(* ===== verification/Repo_Conns.thy ===== *)
theory Repo_Conns
  imports Repo_Props
begin

text \<open>
  The connections a call of the repository (\<open>order_repository.go\<close>) takes from the pool.  A query
  holds one from the call to the end of its rows; \<open>LastN\<close> calls \<open>GetByUID\<close> between its rows, and
  so holds one while it asks for another.
\<close>

section \<open>Use of the pool\<close>

datatype conn_use = Acquire | Release

text \<open>
  A pool of \<open>cap\<close> connections of which \<open>k\<close> are taken: the calls can all be made, without waiting
  for a connection that only the caller itself could give back.
\<close>

fun never_waits :: "nat \<Rightarrow> nat \<Rightarrow> conn_use list \<Rightarrow> bool" where
  "never_waits cap k [] = True"
| "never_waits cap k (Acquire # us) \<longleftrightarrow> k < cap \<and> never_waits cap (Suc k) us"
| "never_waits cap k (Release # us) \<longleftrightarrow> 0 < k \<and> never_waits cap (k - 1) us"

text \<open>Each statement of \<open>GetByUID\<close> takes a connection and gives it back before the next.\<close>

definition GetByUID_conns :: "pg_env \<Rightarrow> string \<Rightarrow> pg \<Rightarrow> conn_use list" where
  "GetByUID_conns env uid s =
     (case select env ''select order'' [uid] (\<lambda>d. find (\<lambda>r. ro_uid r = uid) (t_orders d)) s of
        (Inl err, s1) \<Rightarrow> [Acquire, Release]
      | (Inr None, s1) \<Rightarrow> [Acquire, Release]
      | (Inr (Some row), s1) \<Rightarrow> [Acquire, Release] @
          (case select env ''select delivery'' [uid] (\<lambda>d. map_of (t_deliveries d) uid) s1 of
             (Inl err, s2) \<Rightarrow> [Acquire, Release]
           | (Inr del, s2) \<Rightarrow> [Acquire, Release] @
               (case select env ''select payment'' [uid] (\<lambda>d. map_of (t_payments d) uid) s2 of
                  (Inl err, s3) \<Rightarrow> [Acquire, Release]
                | (Inr pay, s3) \<Rightarrow> [Acquire, Release, Acquire, Release])))"

text \<open>The loop of \<open>LastN\<close>, while its own rows are open.\<close>

fun fetch_conns :: "pg_env \<Rightarrow> string list \<Rightarrow> pg \<Rightarrow> conn_use list" where
  "fetch_conns env [] s = []"
| "fetch_conns env (uid # uids) s =
     GetByUID_conns env uid s @
     (case GetByUID env uid s of
        (Inl err, s1) \<Rightarrow> []
      | (Inr p, s1) \<Rightarrow> fetch_conns env uids s1)"

definition LastN_conns :: "pg_env \<Rightarrow> goint \<Rightarrow> pg \<Rightarrow> conn_use list" where
  "LastN_conns env n s =
     (if sint n \<le> 0 then []
      else
        (case select env ''select last uids'' [] (last_uids env (pg_n s) (nat (sint n))) s of
           (Inl err, s1) \<Rightarrow> [Acquire, Release]
         | (Inr rows, s1) \<Rightarrow> [Acquire] @ fetch_conns env (fst (delivered env (pg_n s) rows)) s1 @ [Release]))"

text \<open>The UIDs that the query of \<open>LastN\<close> delivers.\<close>

definition LastN_rows :: "pg_env \<Rightarrow> goint \<Rightarrow> pg \<Rightarrow> string list" where
  "LastN_rows env n s =
     (case select env ''select last uids'' [] (last_uids env (pg_n s) (nat (sint n))) s of
        (Inl err, s1) \<Rightarrow> []
      | (Inr rows, s1) \<Rightarrow> fst (delivered env (pg_n s) rows))"

section \<open>What is needed\<close>

text \<open>Blocks of queries that each give back what they take.\<close>

inductive queries :: "conn_use list \<Rightarrow> bool" where
  none: "queries []"
| query: "queries us \<Longrightarrow> queries (Acquire # Release # us)"

inductive_cases queries_ConsE: "queries (u # us)"

lemma queries_append: "queries us \<Longrightarrow> queries vs \<Longrightarrow> queries (us @ vs)"
  by (induction rule: queries.induct) (auto intro: queries.intros)

lemma queries_simps [simp]:
  "queries []" "queries (Acquire # Release # us) \<longleftrightarrow> queries us"
  by (auto intro: queries.intros elim: queries_ConsE)

lemma queries_never_wait:
  "queries us \<Longrightarrow> never_waits cap k (us @ vs) \<longleftrightarrow> (us = [] \<or> k < cap) \<and> never_waits cap k vs"
  by (induction rule: queries.induct) auto

lemma GetByUID_conns_queries: "queries (GetByUID_conns env uid s) \<and> GetByUID_conns env uid s \<noteq> []"
  by (auto simp: GetByUID_conns_def split: prod.split sum.split option.split)

lemma fetch_conns_queries:
  "queries (fetch_conns env uids s) \<and> (fetch_conns env uids s = [] \<longleftrightarrow> uids = [])"
proof (induction uids arbitrary: s)
  case (Cons uid uids)
  have "queries (case GetByUID env uid s of (Inl err, s1) \<Rightarrow> [] | (Inr p, s1) \<Rightarrow> fetch_conns env uids s1)"
    using Cons.IH by (simp split: prod.split sum.split)
  then show ?case using GetByUID_conns_queries [of env uid s] by (simp add: queries_append)
qed simp

text \<open>The statements of \<open>GetByUID\<close> are as many as the connections it takes.\<close>

lemma GetByUID_conns_count:
  "pg_n (snd (GetByUID env uid s)) = pg_n s + length (GetByUID_conns env uid s) div 2"
proof -
  have "pg_n (snd (select env label texts f s)) = Suc (pg_n s)" for label texts and f :: "db \<Rightarrow> 'x" and s
    by (simp add: select_def Let_def split: option.split)
  then have n: "select env label texts f s = (r, s1) \<Longrightarrow> pg_n s1 = Suc (pg_n s)"
    for label texts and f :: "db \<Rightarrow> 'x" and s r s1 by (metis snd_conv)
  show ?thesis
    by (auto simp: GetByUID_def GetByUID_conns_def split: prod.split sum.split option.split dest!: n)
qed

text \<open>C39: \<open>LastN\<close> alone, on a free pool, never waits for itself with two connections; with one it does
  exactly when its query delivers a row: the warm-up then does not get on until its context
  ends.\<close>
theorem LastN_needs_two_connections:
  "never_waits 2 0 (LastN_conns env n s) \<and>
   (never_waits 1 0 (LastN_conns env n s) \<longleftrightarrow> sint n \<le> 0 \<or> LastN_rows env n s = [])"
  using fetch_conns_queries
  by (auto simp: LastN_conns_def LastN_rows_def queries_never_wait split: prod.split sum.split)

end
