(* ===== verification/App.thy ===== *)
theory App
  imports Config Http_Props
begin

text \<open>
  Assembling and running the application: \<open>postgres.NewPool\<close>, \<open>logger.NewZapLogger\<close>,
  \<open>telemetry.SetupTracing\<close>, \<open>app.Bootstrap\<close> with its cleanup function, \<open>App.Run\<close> and the
  \<open>main\<close> of \<open>cmd/server\<close>.

  Each function returns, beside its result, the actions on resources it took, in order.  What
  the libraries answer (zap, pgxpool, the OTLP exporter, the Kafka reader) is the record
  \<open>boot_env\<close>.  Log lines are left out.
\<close>

section \<open>Resources\<close>

text \<open>The provider that \<open>SetupTracing\<close> installs, with the propagators it makes global.\<close>

datatype propagator = TraceContext | Baggage

record trace_provider =
  tp_endpoint :: string
  tp_insecure :: bool
  tp_sample_ratio :: real
  tp_attributes :: "(string \<times> string) list"
  tp_propagators :: "propagator list"

datatype action =
    LoggerOpened
  | LoggerSynced
  | MetricsRegistered
  | PoolOpened
  | PoolClosed
  | TracingStarted trace_provider
  | TracingStopped
  | ReaderOpened reader_config
  | ReaderClosed
  | ServerShutdown duration

record pool_config =
  MaxConns :: "32 word"
  MaxConnLifetime :: duration
  MaxConnIdleTime :: duration

record boot_env =
  be_NewZap :: "bool \<Rightarrow> goerror option"
  be_ParseConfig :: "string \<Rightarrow> goerror + pool_config"
  be_NewWithConfig :: "pool_config \<Rightarrow> goerror option"
  be_Ping :: "pool_config \<Rightarrow> goerror option"
  be_NewExporter :: "string \<Rightarrow> goerror option"
  be_CloseReader :: "goerror option"

definition NewPool :: "boot_env \<Rightarrow> string \<Rightarrow> 32 word \<Rightarrow> (goerror + pool_config) \<times> action list" where
  "NewPool env dsn maxConns =
     (case be_ParseConfig env dsn of
        Inl err \<Rightarrow> (Inl err, [])
      | Inr cfg \<Rightarrow>
          (let cfg = (if 0 < sint maxConns then cfg\<lparr>MaxConns := maxConns\<rparr> else cfg);
               cfg = cfg\<lparr>MaxConnLifetime := 3600 * second, MaxConnIdleTime := 30 * 60 * second\<rparr>
           in case be_NewWithConfig env cfg of
                Some err \<Rightarrow> (Inl err, [])
              | None \<Rightarrow>
                  (case be_Ping env cfg of
                     Some connErr \<Rightarrow> (Inl connErr, [PoolOpened, PoolClosed])
                   | None \<Rightarrow> (Inr cfg, [PoolOpened]))))"

definition NewZapLogger :: "boot_env \<Rightarrow> bool \<Rightarrow> goerror option \<times> action list" where
  "NewZapLogger env isProd =
     (case be_NewZap env isProd of
        Some err \<Rightarrow> (Some err, [])
      | None \<Rightarrow> (None, [LoggerOpened]))"

definition SetupTracing :: "boot_env \<Rightarrow> tracing_config \<Rightarrow> goerror option \<times> action list" where
  "SetupTracing env t =
     (case tracing_settings t of (endpoint, ratio) \<Rightarrow>
       (case be_NewExporter env endpoint of
          Some err \<Rightarrow> (Some err, [])
        | None \<Rightarrow>
            (let traceProvider =
               \<lparr>tp_endpoint = endpoint, tp_insecure = True, tp_sample_ratio = ratio,
                tp_attributes = [(''service.name'', tracing_ServiceName t), (''telemetry.sdk'', ''opentelemetry'')],
                tp_propagators = [TraceContext, Baggage]\<rparr>
             in (None, [TracingStarted traceProvider]))))"

section \<open>Bootstrap\<close>

record http_server =
  srv_Addr :: string
  srv_ReadTimeout :: duration
  srv_WriteTimeout :: duration
  srv_ReadHeaderTimeout :: duration
  srv_IdleTimeout :: duration
  srv_reqTimeout :: duration
  srv_otelServiceName :: string
  srv_ginMode :: gin_mode

record application =
  HTTPServer :: http_server
  KafkaConsumer :: consumer
  gracefulTimeout :: duration
  shutdownTrace :: bool

definition httpSrv :: "config \<Rightarrow> http_server" where
  "httpSrv cfg =
     \<lparr>srv_Addr = http_Addr (c_HTTP cfg), srv_ReadTimeout = http_ReadTimeout (c_HTTP cfg),
      srv_WriteTimeout = http_WriteTimeout (c_HTTP cfg),
      srv_ReadHeaderTimeout = http_ReadHeaderTimeout (c_HTTP cfg), srv_IdleTimeout = http_IdleTimeout (c_HTTP cfg),
      srv_reqTimeout = handler_timeout (http_HandlerTimeout (c_HTTP cfg)),
      srv_otelServiceName = (if tracing_Enabled (c_Tracing cfg) then tracing_ServiceName (c_Tracing cfg) else []),
      srv_ginMode = fst (applyGinMode (http_GinMode (c_HTTP cfg)))\<rparr>"

text \<open>The state the new service starts from: an empty cache, warmed up if the configuration says so.\<close>

definition warm_start ::
    "cache_env \<Rightarrow> pg_env \<Rightarrow> json_lib \<Rightarrow> (string \<Rightarrow> bool) \<Rightarrow> cache_config \<Rightarrow> pg \<Rightarrow> app_state" where
  "warm_start cenv env js parse_ok cc r =
     (let orderCache = (NewLRUCacheTTL (cache_Capacity cc) (cache_TTL cc), 0);
          orderService = app_service cenv env js parse_ok;
          n = cache_WarmUpN cc
      in if 0 < sint n
         then (case WarmUpCache orderService n (orderCache, r) of (err, s) \<Rightarrow> s)
         else (orderCache, r))"

definition Bootstrap ::
    "boot_env \<Rightarrow> cache_env \<Rightarrow> pg_env \<Rightarrow> json_lib \<Rightarrow> (string \<Rightarrow> bool) \<Rightarrow> config \<Rightarrow> pg
     \<Rightarrow> (goerror + application \<times> app_state) \<times> action list" where
  "Bootstrap env cenv penv js parse_ok cfg r =
     (case NewZapLogger env (logger_IsProd (c_Logger cfg)) of
        (Some err, a) \<Rightarrow> (Inl err, a)
      | (None, a1) \<Rightarrow>
          (let a1 = a1 @ [MetricsRegistered] in
           case NewPool env (postgres_DSN (c_Postgres cfg)) (postgres_MaxConns (c_Postgres cfg)) of
             (Inl err, a2) \<Rightarrow> (Inl err, a1 @ a2 @ [LoggerSynced])
           | (Inr pool, a2) \<Rightarrow>
               (let (traced, a3) =
                      (if tracing_Enabled (c_Tracing cfg)
                       then (case SetupTracing env (c_Tracing cfg) of
                               (Some tErr, a) \<Rightarrow> (False, a)
                             | (None, a) \<Rightarrow> (True, a))
                       else (False, []));
                    s = warm_start cenv penv js parse_ok (c_Cache cfg) r;
                    cons = NewConsumer (kafkaCfg cfg)
                in (Inr (\<lparr>HTTPServer = httpSrv cfg, KafkaConsumer = cons,
                          gracefulTimeout = http_GracefulTimeout (c_HTTP cfg), shutdownTrace = traced\<rparr>, s),
                    a1 @ a2 @ a3 @ [ReaderOpened (readerConfig (kafkaCfg cfg))]))))"

text \<open>\<open>Close\<close> of the consumer, with the action on its reader.\<close>

definition close_consumer :: "boot_env \<Rightarrow> closer \<Rightarrow> closer \<times> action list" where
  "close_consumer env cl =
     (case Close (be_CloseReader env) cl of (err, cl1) \<Rightarrow>
       (cl1, replicate (reader_closes cl1 - reader_closes cl) ReaderClosed))"

definition cleanup :: "boot_env \<Rightarrow> application \<Rightarrow> closer \<Rightarrow> closer \<times> action list" where
  "cleanup env a cl =
     (case close_consumer env cl of (cl1, ca) \<Rightarrow>
       (cl1, (if shutdownTrace a then [TracingStopped] else []) @ ca @ [PoolClosed, LoggerSynced]))"

section \<open>Running\<close>

text \<open>What happens while \<open>Run\<close> waits: the context ends, or one of the two goroutines returns.\<close>

datatype app_event =
    Cancelled
  | ConsumerReturned "goerror option"
  | ServerReturned "goerror option"

text \<open>What a goroutine puts into \<open>errCh\<close>.\<close>

fun sent :: "app_event \<Rightarrow> goerror option" where
  "sent Cancelled = None"
| "sent (ConsumerReturned res) = res"
| "sent (ServerReturned None) = None"
| "sent (ServerReturned (Some err)) =
     (if errors_is err (Sentinel Http_ErrServerClosed) then None else Some err)"

text \<open>The \<open>select\<close>: \<open>None\<close> when nothing ends it.\<close>

fun select_stop :: "app_event list \<Rightarrow> goerror option option" where
  "select_stop [] = None"
| "select_stop (Cancelled # evs) = Some None"
| "select_stop (ev # evs) = (case sent ev of Some err \<Rightarrow> Some (Some err) | None \<Rightarrow> select_stop evs)"

definition graceful :: "duration \<Rightarrow> duration" where
  "graceful gt = (if sint gt \<le> 0 then 5 * second else gt)"

definition App_Run ::
    "boot_env \<Rightarrow> application \<Rightarrow> app_event list \<Rightarrow> closer \<Rightarrow> (goerror option \<times> closer \<times> action list) option" where
  "App_Run env a evs cl =
     (case select_stop evs of
        None \<Rightarrow> None
      | Some cause \<Rightarrow>
          (case close_consumer env cl of (cl1, ca) \<Rightarrow>
            Some (None, cl1, ServerShutdown (graceful (gracefulTimeout a)) # ca)))"

text \<open>\<open>main\<close>: the actions taken until it returns; \<open>None\<close> when it does not return.\<close>

definition server_main ::
    "boot_env \<Rightarrow> envconfig \<Rightarrow> cache_env \<Rightarrow> pg_env \<Rightarrow> json_lib \<Rightarrow> (string \<Rightarrow> bool) \<Rightarrow> pg \<Rightarrow> app_event list
     \<Rightarrow> action list option" where
  "server_main env Process cenv penv js parse_ok r evs =
     (case Load Process of
        (_, Some err) \<Rightarrow> Some []
      | (cfg, None) \<Rightarrow>
          (case Bootstrap env cenv penv js parse_ok cfg r of
             (Inl err, acts) \<Rightarrow> Some acts
           | (Inr (a, s), acts) \<Rightarrow>
               (case App_Run env a evs \<lparr>once_done = False, reader_closes = 0\<rparr> of
                  None \<Rightarrow> None
                | Some (errApp, cl, acts1) \<Rightarrow>
                    (case cleanup env a cl of (cl1, acts2) \<Rightarrow> Some (acts @ acts1 @ acts2)))))"

end
