(* ===== verification/App_Props.thy ===== *)
theory App_Props
  imports App Pipeline Repo_Torn
begin

text \<open>
  What holds of the application as a whole: resources, the end of \<open>App.Run\<close>, the cache after a
  restart, and the consumer under the default configuration.
\<close>

section \<open>Resources\<close>

datatype resource = R_Logger | R_Pool | R_Tracing | R_Reader

fun opens :: "action \<Rightarrow> resource option" where
  "opens LoggerOpened = Some R_Logger"
| "opens PoolOpened = Some R_Pool"
| "opens (TracingStarted tp) = Some R_Tracing"
| "opens (ReaderOpened rc) = Some R_Reader"
| "opens _ = None"

fun closes :: "action \<Rightarrow> resource option" where
  "closes LoggerSynced = Some R_Logger"
| "closes PoolClosed = Some R_Pool"
| "closes TracingStopped = Some R_Tracing"
| "closes ReaderClosed = Some R_Reader"
| "closes _ = None"

text \<open>The consumer saves through the pool, and everything logs.\<close>

fun uses_resource :: "resource \<Rightarrow> resource \<Rightarrow> bool" where
  "uses_resource R_Reader R_Pool = True"
| "uses_resource x R_Logger = (x \<noteq> R_Logger)"
| "uses_resource x y = False"

text \<open>
  Started with the resources in \<open>held\<close>, the actions open nothing twice, close only what is open and
  no longer used by something open, and leave nothing open.
\<close>

fun disciplined :: "resource list \<Rightarrow> action list \<Rightarrow> bool" where
  "disciplined held [] \<longleftrightarrow> held = []"
| "disciplined held (a # as) \<longleftrightarrow>
     (case opens a of
        Some x \<Rightarrow> x \<notin> set held \<and> disciplined (x # held) as
      | None \<Rightarrow>
          (case closes a of
             Some x \<Rightarrow> x \<in> set held \<and> list_all (\<lambda>y. \<not> uses_resource y x) (remove1 x held) \<and>
               disciplined (remove1 x held) as
           | None \<Rightarrow> disciplined held as))"


text \<open>Outcomes under which everything opens.\<close>

definition sample_boot :: boot_env where
  "sample_boot =
     \<lparr>be_NewZap = (\<lambda>p. None),
      be_ParseConfig = (\<lambda>s. Inr \<lparr>MaxConns = 4, MaxConnLifetime = 0, MaxConnIdleTime = 0\<rparr>),
      be_NewWithConfig = (\<lambda>c. None), be_Ping = (\<lambda>c. None), be_NewExporter = (\<lambda>s. None),
      be_CloseReader = Some (Errorf ''close'')\<rparr>"


section \<open>The end of \<open>Run\<close>\<close>

lemma select_stop_iff:
  "select_stop evs \<noteq> None \<longleftrightarrow> (\<exists>ev\<in>set evs. ev = Cancelled \<or> sent ev \<noteq> None)"
  by (induction evs rule: select_stop.induct) (auto split: option.splits)

text \<open>C40: \<open>Run\<close> returns exactly when the context ends or one of the two goroutines reports an error; it
  then shuts the server down with a positive time limit, closes the consumer, and returns
  \<open>nil\<close>, also when an error ended it.\<close>
theorem App_Run_returns_nil:
  "(App_Run env a evs cl \<noteq> None \<longleftrightarrow> (\<exists>ev\<in>set evs. ev = Cancelled \<or> sent ev \<noteq> None)) \<and>
   (\<forall>err cl1 acts. App_Run env a evs cl = Some (err, cl1, acts) \<longrightarrow>
      err = None \<and> once_done cl1 \<and> (\<exists>gt closing. acts = ServerShutdown gt # closing \<and> 0 < sint gt))"
  using select_stop_iff [of evs]
  by (auto simp: App_Run_def close_consumer_def Close_def graceful_def second_def
      split: option.splits prod.splits if_splits)

definition sample_application :: application where
  "sample_application = \<lparr>HTTPServer = httpSrv default_config, KafkaConsumer = NewConsumer (kafkaCfg default_config),
     gracefulTimeout = 0, shutdownTrace = False\<rparr>"

lemma App_Run_returns_nil_witness:
  "\<exists>cl1 gt. App_Run sample_boot sample_application [ServerReturned (Some (Errorf ''address already in use''))]
     \<lparr>once_done = False, reader_closes = 0\<rparr> = Some (None, cl1, [ServerShutdown gt, ReaderClosed]) \<and> 0 < sint gt"
proof -
  let ?evs = "[ServerReturned (Some (Errorf ''address already in use''))]"
  let ?cl = "\<lparr>once_done = False, reader_closes = 0\<rparr>"
  have "\<exists>ev\<in>set ?evs. ev = Cancelled \<or> sent ev \<noteq> None" by simp
  then obtain err cl1 acts where run: "App_Run sample_boot sample_application ?evs ?cl = Some (err, cl1, acts)"
    using App_Run_returns_nil [of sample_boot sample_application ?evs ?cl] by (auto simp del: sent.simps)
  then have "err = None" "\<exists>gt closing. acts = ServerShutdown gt # closing \<and> 0 < sint gt"
    using App_Run_returns_nil [of sample_boot sample_application ?evs ?cl] by blast+
  then obtain gt closing where acts: "err = None" "acts = ServerShutdown gt # closing" "0 < sint gt" by blast
  moreover have "closing = [ReaderClosed]"
    using run by (auto simp: acts App_Run_def close_consumer_def Close_def)
  ultimately show ?thesis using run by blast
qed

section \<open>After a restart\<close>

lemma warm_start_state:
  assumes "pg_ok r"
  shows "app.svc_inv (warm_start cenv (calm env) js parse_ok cc r)"
    and "app.coherent (warm_start cenv (calm env) js parse_ok cc r)"
proof -
  let ?s = "((NewLRUCacheTTL (cache_Capacity cc) (cache_TTL cc), 0 :: nat), r)"
  have inv: "app.svc_inv ?s" using assms by (simp add: app.svc_inv_def cache_ok_def New_inv)
  have co: "app.coherent ?s" by (simp add: app.coherent_def cached_def stored_New)
  have run: "warm_start cenv (calm env) js parse_ok cc r =
      (if 0 < sint (cache_WarmUpN cc)
       then snd (WarmUpCache (app_service cenv (calm env) js parse_ok) (cache_WarmUpN cc) ?s) else ?s)"
    by (simp add: warm_start_def Let_def split: prod.split)
  show "app.svc_inv (warm_start cenv (calm env) js parse_ok cc r)"
    and "app.coherent (warm_start cenv (calm env) js parse_ok cc r)"
    unfolding run using inv co app.WarmUpCache_state [OF inv] by simp_all
qed


definition warm_config :: config where
  "warm_config = default_config\<lparr>c_Cache := \<lparr>cache_Capacity = 2, cache_TTL = 0, cache_WarmUpN = 5\<rparr>\<rparr>"


section \<open>The default configuration\<close>

text \<open>with no variable set, every wait of the consumer is at most 30 seconds.\<close>
theorem default_waits:
  assumes "Process ''ORDER'' = Inr default_config" and "Load Process = (cfg, None)"
    and "\<forall>w. int63n_ok (\<lambda>n. Int63n env n w)"
    and "Slept d b \<in> set (calls_after (NewConsumer (kafkaCfg cfg)) env w n)"
  shows "0 \<le> sint d \<and> sint d \<le> 30 * 10 ^ 9"
proof -
  let ?c = "NewConsumer (kafkaCfg cfg)"
  have cfg: "cfg = default_config" using assms(1,2) by (simp add: Load_def LoadWithPrefix_def)
  have c: "sint (retryInitial ?c) = 10 ^ 9" "sint (retryMax ?c) = 30 * 10 ^ 9"
    by (simp_all add: cfg NewConsumer_def kafkaCfg_def default_config_def Let_def second_def)
  then have "small_backoff ?c" by (simp add: small_backoff_def)
  from calls_waits [OF this assms(3,4)] show ?thesis by (simp add: c)
qed

lemma default_waits_witness:
  "\<exists>d b. Slept d b \<in> set (calls_after (NewConsumer (kafkaCfg default_config)) script_env
      [Inr (Errorf ''broker error''), Inl (sample_message 8 ''ok'')] 2) \<and> 0 \<le> sint d \<and> sint d \<le> 30 * 10 ^ 9"
proof -
  let ?calls = "calls_after (NewConsumer (kafkaCfg default_config)) script_env
      [Inr (Errorf ''broker error''), Inl (sample_message 8 ''ok'')] 2"
  have eq: "NewConsumer (kafkaCfg default_config) = sample_consumer"
    by (simp add: NewConsumer_def kafkaCfg_def default_config_def sample_consumer_def Let_def second_def)
  have mem: "Slept 500000000 True \<in> set ?calls" unfolding eq by code_simp
  have "\<forall>w. int63n_ok (\<lambda>n. Int63n script_env n w)" by (simp add: int63n_ok_def script_env_def)
  moreover have "Load (\<lambda>pre. Inr default_config) = (default_config, None)"
    by (simp add: Load_def LoadWithPrefix_def)
  ultimately have "0 \<le> sint (500000000 :: duration) \<and> sint (500000000 :: duration) \<le> 30 * 10 ^ 9"
    using mem by (intro default_waits [where Process = "\<lambda>pre. Inr default_config"]) simp_all
  then show ?thesis using mem by blast
qed

end
