(* ===== verification/Delivery.thy ===== *)
theory Delivery
  imports App_Props
begin

text \<open>
  Delivery over crashes and restarts: the consumer of \<open>internal/kafka\<close> runs, the process ends at any
  point, and a new process starts where the group's committed offset is.  The reader is still any
  world that keeps the documented promises of one partition (\<open>reads_partition\<close>); the program has one
  consumer on its topic.
\<close>

section \<open>One partition\<close>

text \<open>
  \<open>topic off\<close> is the value at an offset, when there is one; offsets may have gaps.  \<open>position w\<close> is
  where the reader goes on, and \<open>commits w\<close> the committed offset of the group.  A fetch delivers the
  first message from the position on or, when the connection or the group had to be set up again,
  from the committed offset on; a commit sets the committed offset behind its message, and one that
  reports an error may have done so.  Nothing else moves either of them.
\<close>

definition message_at :: "nat \<Rightarrow> string \<Rightarrow> message" where
  "message_at off v = \<lparr>msg_Offset = word_of_int (int off), msg_Value = v\<rparr>"

definition offset_of :: "message \<Rightarrow> nat" where
  "offset_of m = nat (uint (msg_Offset m))"

definition first_from :: "(nat \<rightharpoonup> string) \<Rightarrow> nat \<Rightarrow> nat \<Rightarrow> bool" where
  "first_from topic start off \<longleftrightarrow> start \<le> off \<and> (\<forall>k. start \<le> k \<longrightarrow> k < off \<longrightarrow> topic k = None)"

definition reads_partition ::
    "'w consumer_env \<Rightarrow> (nat \<rightharpoonup> string) \<Rightarrow> ('w \<Rightarrow> nat) \<Rightarrow> ('w \<Rightarrow> nat) \<Rightarrow> bool" where
  "reads_partition env topic position commits \<longleftrightarrow>
     (\<forall>w m w1. FetchMessage env w = (Inl m, w1) \<longrightarrow>
        commits w1 = commits w \<and> position w1 = Suc (offset_of m) \<and>
        topic (offset_of m) = Some (msg_Value m) \<and>
        (first_from topic (position w) (offset_of m) \<or> first_from topic (commits w) (offset_of m))) \<and>
     (\<forall>w e w1. FetchMessage env w = (Inr e, w1) \<longrightarrow>
        commits w1 = commits w \<and> (position w1 = position w \<or> position w1 = commits w)) \<and>
     (\<forall>w m e w1. CommitMessages env m w = (e, w1) \<longrightarrow>
        position w1 = position w \<and>
        (commits w1 = Suc (offset_of m) \<or> e \<noteq> None \<and> commits w1 = commits w)) \<and>
     (\<forall>w d b w1. after_or_done env d w = (b, w1) \<longrightarrow> commits w1 = commits w \<and> position w1 = position w)"

text \<open>The saver does not touch the reader.\<close>

definition saves_apart :: "'w consumer_env \<Rightarrow> ('w \<Rightarrow> nat) \<Rightarrow> ('w \<Rightarrow> nat) \<Rightarrow> bool" where
  "saves_apart env position commits \<longleftrightarrow>
     (\<forall>w t v e w1. saveFromMessage env t v w = (e, w1) \<longrightarrow> commits w1 = commits w \<and> position w1 = position w)"

text \<open>A new process reads from the committed offset on.\<close>

definition resumes :: "('w \<Rightarrow> 'w) \<Rightarrow> ('w \<Rightarrow> nat) \<Rightarrow> ('w \<Rightarrow> nat) \<Rightarrow> bool" where
  "resumes restart position commits \<longleftrightarrow>
     (\<forall>w. commits (restart w) = commits w \<and> position (restart w) = commits w)"

text \<open>
  One process after the other: the i-th runs at most \<open>ns ! i\<close> iterations and ends, with an error, by a
  signal or by a crash.  A crash between the save and the commit is, for the next process, a commit
  that failed.
\<close>

fun sessions ::
    "consumer \<Rightarrow> 'w consumer_env \<Rightarrow> ('w \<Rightarrow> 'w) \<Rightarrow> nat list \<Rightarrow> 'w \<Rightarrow> call list \<times> 'w" where
  "sessions c env restart [] w = ([], w)"
| "sessions c env restart (n # ns) w =
     (let s = state_after c env (restart w) n; (cs, w1) = sessions c env restart ns (world s)
      in (calls s @ cs, w1))"

section \<open>One process\<close>

text \<open>
  From the committed offset \<open>base\<close> on: the reader is never behind the commits, everything behind the
  position was fetched, nothing below \<open>base\<close> was, and the committed offset is that of a commit.
\<close>

definition covered :: "(nat \<rightharpoonup> string) \<Rightarrow> nat \<Rightarrow> nat \<Rightarrow> nat \<Rightarrow> call list \<Rightarrow> bool" where
  "covered topic base com pos cs \<longleftrightarrow>
     base \<le> com \<and> com \<le> pos \<and>
     (\<forall>off v. base \<le> off \<longrightarrow> off < pos \<longrightarrow> topic off = Some v \<longrightarrow>
        (\<exists>m. offset_of m = off \<and> msg_Value m = v \<and> Fetched m \<in> set cs)) \<and>
     (\<forall>m. Fetched m \<in> set cs \<longrightarrow>
        base \<le> offset_of m \<and> topic (offset_of m) = Some (msg_Value m)) \<and>
     (com = base \<or> (\<exists>m e. Committed m e \<in> set cs \<and> com = Suc (offset_of m))) \<and>
     (\<forall>m. Committed m None \<in> set cs \<longrightarrow> offset_of m < com)"

lemma covered_start: "covered topic base base base []"
  by (simp add: covered_def)

lemma covered_other:
  assumes "covered topic base com pos cs" and "\<And>m. call \<noteq> Fetched m" and "\<And>m e. call \<noteq> Committed m e"
  shows "covered topic base com pos (cs @ [call])"
proof -
  have "Fetched m \<in> set (cs @ [call]) \<longleftrightarrow> Fetched m \<in> set cs"
    and "Committed m e \<in> set (cs @ [call]) \<longleftrightarrow> Committed m e \<in> set cs" for m e
    using assms(2,3) by (metis Un_iff empty_iff insert_iff list.set set_append)+
  then show ?thesis using assms(1) by (simp only: covered_def) blast
qed

lemma covered_fetch:
  assumes cov: "covered topic base com pos cs"
    and p: "com \<le> p" "p \<le> pos" "first_from topic p (offset_of m)" and m: "topic (offset_of m) = Some (msg_Value m)"
  shows "covered topic base com (Suc (offset_of m)) (cs @ [Fetched m])"
proof -
  have "\<exists>k. offset_of k = off \<and> msg_Value k = v \<and> Fetched k \<in> set (cs @ [Fetched m])"
    if off: "base \<le> off" "off < Suc (offset_of m)" "topic off = Some v" for off v
  proof (cases "off < p")
    case True
    then have "off < pos" using p(2) by simp
    then show ?thesis using cov off unfolding covered_def by fastforce
  next
    case False
    then have "off = offset_of m" using p(3) off by (cases "off < offset_of m") (auto simp: first_from_def)
    then show ?thesis using off(3) m by (intro exI [of _ m]) simp
  qed
  moreover have "base \<le> offset_of k \<and> topic (offset_of k) = Some (msg_Value k)"
    if "Fetched k \<in> set (cs @ [Fetched m])" for k
    using that cov p m by (fastforce simp: covered_def first_from_def)
  ultimately show ?thesis using cov p by (simp add: covered_def first_from_def)
qed

lemma covered_reset: "covered topic base com pos cs \<Longrightarrow> covered topic base com com cs"
  by (auto simp: covered_def)

lemma covered_commit:
  assumes cov: "covered topic base com (Suc (offset_of m)) cs"
    and com: "com1 = Suc (offset_of m) \<or> e \<noteq> None \<and> com1 = com"
  shows "covered topic base com1 (Suc (offset_of m)) (cs @ [Committed m e])"
proof -
  have le: "com \<le> com1" using cov com by (auto simp: covered_def)
  have "com1 = base \<or> (\<exists>k e'. Committed k e' \<in> set (cs @ [Committed m e]) \<and> com1 = Suc (offset_of k))"
    using cov com by (auto simp: covered_def)
  moreover have "offset_of k < com1" if "Committed k None \<in> set (cs @ [Committed m e])" for k
    using that cov com le by (fastforce simp: covered_def)
  ultimately show ?thesis using cov com by (auto simp: covered_def)
qed

lemma reads_partitionD:
  assumes "reads_partition env topic position commits"
  shows "FetchMessage env w = (Inl m, w1) \<Longrightarrow>
      commits w1 = commits w \<and> position w1 = Suc (offset_of m) \<and> topic (offset_of m) = Some (msg_Value m) \<and>
      (first_from topic (position w) (offset_of m) \<or> first_from topic (commits w) (offset_of m))"
    and "FetchMessage env w = (Inr e, w1) \<Longrightarrow>
      commits w1 = commits w \<and> (position w1 = position w \<or> position w1 = commits w)"
    and "CommitMessages env m w = (e', w1) \<Longrightarrow>
      position w1 = position w \<and> (commits w1 = Suc (offset_of m) \<or> e' \<noteq> None \<and> commits w1 = commits w)"
    and "after_or_done env d w = (b, w1) \<Longrightarrow> commits w1 = commits w \<and> position w1 = position w"
  using assms unfolding reads_partition_def by blast+

text \<open>A state of the loop at which \<open>covered\<close> holds, and its three calls.\<close>

definition at_base ::
    "(nat \<rightharpoonup> string) \<Rightarrow> ('w \<Rightarrow> nat) \<Rightarrow> ('w \<Rightarrow> nat) \<Rightarrow> nat \<Rightarrow> 'w run_state \<Rightarrow> bool" where
  "at_base topic position commits base s \<longleftrightarrow>
     covered topic base (commits (world s)) (position (world s)) (calls s)"

lemma handle_at_base:
  assumes "saves_apart env position commits" and "at_base topic position commits base s"
    and "handleMessage c env m s = (b, s1)"
  shows "at_base topic position commits base s1"
    and "position (world s1) = position (world s)"
  using assms
  by (auto simp: handleMessage_def saves_apart_def at_base_def Let_def intro: covered_other
      split: prod.splits option.splits)

lemma commit_at_base:
  assumes part: "reads_partition env topic position commits" and base: "at_base topic position commits base s"
    and pos: "position (world s) = Suc (offset_of m)"
  shows "at_base topic position commits base (commitSafely env m s)"
proof -
  obtain e w where commit: "CommitMessages env m (world s) = (e, w)" by (cases "CommitMessages env m (world s)")
  have "covered topic base (commits w) (position w) (calls s @ [Committed m e])"
    using covered_commit [of topic base "commits (world s)" m "calls s" "commits w" e]
      reads_partitionD(3) [OF part commit] base pos
    by (simp add: at_base_def)
  then show ?thesis by (simp add: commitSafely_def commit at_base_def)
qed

lemma sleep_at_base:
  assumes "reads_partition env topic position commits" and "at_base topic position commits base s"
    and "sleepWithBackoff env d s = (b, s1)"
  shows "at_base topic position commits base s1"
  using assms(2,3) reads_partitionD(4) [OF assms(1)]
  by (auto simp: sleepWithBackoff_def at_base_def covered_other split: prod.splits)

lemma run_iter_at_base:
  assumes part: "reads_partition env topic position commits" and apart: "saves_apart env position commits"
    and base: "at_base topic position commits base s"
  shows "case run_iter c env s of Inl s1 \<Rightarrow> at_base topic position commits base s1
    | Inr (_, s1) \<Rightarrow> at_base topic position commits base s1"
proof -
  obtain res w where fetch: "FetchMessage env (world s) = (res, w)" by (cases "FetchMessage env (world s)")
  show ?thesis
  proof (cases res)
    case (Inl m)
    let ?s = "s\<lparr>world := w, calls := calls s @ [Fetched m], retry := retryInitial c, consumed := Suc (consumed s)\<rparr>"
    note D = reads_partitionD(1) [OF part fetch [unfolded Inl]]
    have "commits (world s) \<le> position (world s)" using base by (simp add: at_base_def covered_def)
    then have "at_base topic position commits base ?s"
      using covered_fetch [of topic base "commits w" "position (world s)" "calls s" "position (world s)" m]
        covered_fetch [of topic base "commits w" "position (world s)" "calls s" "commits w" m] D base
      by (auto simp: at_base_def)
    moreover obtain b s1 where handle: "handleMessage c env m ?s = (b, s1)" by (cases "handleMessage c env m ?s")
    ultimately have s1: "at_base topic position commits base s1" "position (world s1) = Suc (offset_of m)"
      using handle_at_base [OF apart] D by simp_all
    show ?thesis
      using sleep_at_base [OF part s1(1)] commit_at_base [OF part s1]
      by (simp add: run_iter_def Let_def fetch Inl handle split: prod.split)
  next
    case (Inr e)
    let ?s = "s\<lparr>world := w, calls := calls s @ [FetchFailed e]\<rparr>"
    have "at_base topic position commits base ?s"
      using reads_partitionD(2) [OF part fetch [unfolded Inr]] base covered_reset
      by (auto simp: at_base_def intro!: covered_other)
    then show ?thesis
      using sleep_at_base [OF part, of base ?s]
      by (auto simp: run_iter_def Let_def fetch Inr at_base_def split: prod.split)
  qed
qed

lemma state_after_covered:
  assumes part: "reads_partition env topic position commits" and apart: "saves_apart env position commits"
    and "position w = commits w"
  shows "covered topic (commits w) (commits (world (state_after c env w n)))
    (position (world (state_after c env w n))) (calls (state_after c env w n))"
proof -
  have loop: "case run_loop c env n s of Inl s1 \<Rightarrow> at_base topic position commits base s1
      | Inr (_, s1) \<Rightarrow> at_base topic position commits base s1"
    if "at_base topic position commits base s" for s base
    using that
  proof (induction n arbitrary: s)
    case (Suc n)
    then show ?case using run_iter_at_base [OF part apart Suc.prems, of c] by (cases "run_iter c env s") auto
  qed simp
  have "at_base topic position commits (commits w) (init_run c w)"
    using assms(3) by (simp add: at_base_def init_run_def covered_start)
  from loop [OF this] have "at_base topic position commits (commits w) (state_after c env w n)"
    by (simp add: state_after_def split: sum.splits prod.splits)
  then show ?thesis by (simp add: at_base_def)
qed

text \<open>What is fetched is saved next.\<close>

lemma state_after_saved:
  assumes "Fetched m \<in> set (calls (state_after c env w n))"
  shows "\<exists>xs r ys. calls (state_after c env w n) = xs @ Fetched m # Saved (msg_Value m) r # ys"
proof -
  obtain xs ys where eq: "calls_after c env w n = xs @ Fetched m # ys"
    using assms by (metis calls_after_state split_list)
  obtain tr ex where tr: "loop_calls tr" and ex: "ex = [] \<or> exit_calls ex" and calls: "calls_after c env w n = tr @ ex"
    by (rule calls_after_shape)
  have "Fetched m \<notin> set ex" using ex by (auto elim: exit_calls.cases)
  with eq calls obtain us where us: "tr = xs @ Fetched m # us" "ys = us @ ex" by (metis append_eq_elem_left)
  obtain r call zs where "us = Saved (msg_Value m) r # call # zs" using loop_calls_fetch [OF tr us(1)] by blast
  then show ?thesis using eq us by (auto simp: calls_after_state)
qed

section \<open>All processes\<close>

text \<open>What is known at the end: \<open>base\<close> and \<open>com\<close> are the committed offset before and after.\<close>

definition delivered :: "(nat \<rightharpoonup> string) \<Rightarrow> nat \<Rightarrow> nat \<Rightarrow> call list \<Rightarrow> bool" where
  "delivered topic base com cs \<longleftrightarrow>
     base \<le> com \<and>
     (\<forall>off v. base \<le> off \<longrightarrow> off < com \<longrightarrow> topic off = Some v \<longrightarrow>
        (\<exists>m xs r ys. offset_of m = off \<and> cs = xs @ Fetched m # Saved v r # ys)) \<and>
     (\<forall>m. Fetched m \<in> set cs \<longrightarrow> base \<le> offset_of m) \<and>
     (com = base \<or> (\<exists>m e r. Committed m e \<in> set cs \<and> com = Suc (offset_of m) \<and>
        topic (offset_of m) = Some (msg_Value m) \<and> Saved (msg_Value m) r \<in> set cs \<and> should_commit r)) \<and>
     (\<forall>m. Committed m None \<in> set cs \<longrightarrow> offset_of m < com)"

lemma delivered_one:
  assumes "reads_partition env topic position commits" and "saves_apart env position commits"
    and "position w = commits w"
  shows "delivered topic (commits w) (commits (world (state_after c env w n))) (calls (state_after c env w n))"
proof -
  let ?s = "state_after c env w n"
  note cov = state_after_covered [OF assms, of c n, unfolded covered_def]
  have "\<exists>m xs r ys. offset_of m = off \<and> calls ?s = xs @ Fetched m # Saved v r # ys"
    if off: "commits w \<le> off" "off < commits (world ?s)" "topic off = Some v" for off v
  proof -
    from cov off obtain m where m: "offset_of m = off" "msg_Value m = v" "Fetched m \<in> set (calls ?s)"
      by (meson less_le_trans)
    then show ?thesis using state_after_saved [OF m(3)] by blast
  qed
  moreover have "topic (offset_of m) = Some (msg_Value m) \<and> (\<exists>r. Saved (msg_Value m) r \<in> set (calls ?s) \<and> should_commit r)"
    if "Committed m e \<in> set (calls ?s)" for m e
  proof -
    obtain xs ys where split: "calls_after c env w n = xs @ Committed m e # ys"
      using \<open>Committed m e \<in> _\<close> by (metis calls_after_state split_list)
    from committed_after_saved [OF this] obtain xs' r
      where "xs = xs' @ [Fetched m, Saved (msg_Value m) r]" "should_commit r" by blast
    then have "Fetched m \<in> set (calls ?s)" "Saved (msg_Value m) r \<in> set (calls ?s)"
      using split by (simp_all add: calls_after_state)
    then show ?thesis using cov \<open>should_commit r\<close> by blast
  qed
  ultimately show ?thesis using cov unfolding delivered_def by blast
qed

lemma delivered_trans:
  assumes xs: "delivered topic a b xs" and ys: "delivered topic b c ys"
  shows "delivered topic a c (xs @ ys)"
proof -
  have le: "a \<le> b" "b \<le> c" using xs ys by (simp_all add: delivered_def)
  have "\<exists>m us r vs. offset_of m = off \<and> xs @ ys = us @ Fetched m # Saved v r # vs"
    if off: "a \<le> off" "off < c" "topic off = Some v" for off v
  proof (cases "off < b")
    case True
    then obtain m us r vs where "offset_of m = off" "xs = us @ Fetched m # Saved v r # vs"
      using xs off unfolding delivered_def by blast
    then show ?thesis by (intro exI [of _ m] exI [of _ us] exI [of _ r] exI [of _ "vs @ ys"]) simp
  next
    case False
    then obtain m us r vs where "offset_of m = off" "ys = us @ Fetched m # Saved v r # vs"
      using ys off unfolding delivered_def by (meson not_le)
    then show ?thesis by (intro exI [of _ m] exI [of _ "xs @ us"] exI [of _ r] exI [of _ vs]) simp
  qed
  moreover have "a \<le> offset_of m" if "Fetched m \<in> set (xs @ ys)" for m
    proof (cases "Fetched m \<in> set xs")
    case True
    then show ?thesis using xs by (simp add: delivered_def)
  next
    case False
    then have "b \<le> offset_of m" using that ys by (simp add: delivered_def)
    then show ?thesis using le by simp
  qed
  moreover have "c = a \<or> (\<exists>m e r. Committed m e \<in> set (xs @ ys) \<and> c = Suc (offset_of m) \<and>
      topic (offset_of m) = Some (msg_Value m) \<and> Saved (msg_Value m) r \<in> set (xs @ ys) \<and> should_commit r)"
    proof (cases "c = b")
    case True
    then show ?thesis using xs unfolding delivered_def set_append by blast
  next
    case False
    then show ?thesis using ys unfolding delivered_def set_append by blast
  qed
  moreover have "offset_of m < c" if "Committed m None \<in> set (xs @ ys)" for m
  proof (cases "Committed m None \<in> set xs")
    case True
    then have "offset_of m < b" using xs by (simp add: delivered_def)
    then show ?thesis using le by simp
  next
    case False
    then show ?thesis using that ys by (simp add: delivered_def)
  qed
  moreover have "a \<le> c" using le by simp
  ultimately show ?thesis unfolding delivered_def by blast
qed

lemma sessions_delivered:
  assumes "reads_partition env topic position commits" and "saves_apart env position commits"
    and res: "resumes restart position commits" and "sessions c env restart ns w = (cs, w1)"
  shows "delivered topic (commits w) (commits w1) cs"
  using assms(4)
proof (induction ns arbitrary: w cs)
  case Nil
  then show ?case by (simp add: delivered_def)
next
  case (Cons n ns)
  let ?s = "state_after c env (restart w) n"
  obtain cs' where rest: "sessions c env restart ns (world ?s) = (cs', w1)" and cs: "cs = calls ?s @ cs'"
    using Cons.prems by (auto simp: Let_def split: prod.splits)
  have start: "position (restart w) = commits (restart w)" "commits (restart w) = commits w"
    using res by (simp_all add: resumes_def)
  show ?case
    using delivered_trans [OF delivered_one [OF assms(1,2) start(1), of c n] Cons.IH [OF rest]]
    by (simp add: start cs)
qed

text \<open>A property of world and calls that every call and every restart keep.\<close>

lemma sessions_call_inv:
  assumes inv: "call_inv env P" and re: "\<And>w cs. P w cs \<Longrightarrow> P (restart w) cs"
    and "P w cs0" and "sessions c env restart ns w = (cs, w1)"
  shows "P w1 (cs0 @ cs)"
  using assms(3,4)
proof (induction ns arbitrary: w cs0 cs)
  case (Cons n ns)
  let ?s = "state_after c env (restart w) n"
  obtain cs' where rest: "sessions c env restart ns (world ?s) = (cs', w1)" and cs: "cs = calls ?s @ cs'"
    using Cons.prems(2) by (auto simp: Let_def split: prod.splits)
  have "call_inv env (\<lambda>w cs. P w (cs0 @ cs))"
    using inv unfolding call_inv_def append_assoc [symmetric] by blast
  from state_after_call_inv [OF this, of "restart w" c n] re [OF Cons.prems(1)]
  have "P (world ?s) (cs0 @ calls ?s)" by simp
  from Cons.IH [OF this rest] show ?case by (simp add: cs)
qed simp


section \<open>The service over restarts\<close>

text \<open>
  When a process ends, its cache is gone; the new process has a warmed-up one, the database is what
  it was, and \<open>reconnect\<close> gives the new reader.
\<close>

definition new_process ::
    "('k \<Rightarrow> 'k) \<Rightarrow> cache_env \<Rightarrow> pg_env \<Rightarrow> json_lib \<Rightarrow> (string \<Rightarrow> bool) \<Rightarrow> cache_config \<Rightarrow>
     'k \<times> app_state \<Rightarrow> 'k \<times> app_state" where
  "new_process reconnect cenv env js parse_ok cc = (\<lambda>(k, (c, r)). (reconnect k, warm_start cenv env js parse_ok cc r))"

lemma warm_start_view:
  assumes "pg_ok r"
  shows "pg_view (snd (warm_start cenv (calm env) js parse_ok cc r)) = pg_view r"
proof -
  have "app.svc_inv ((NewLRUCacheTTL (cache_Capacity cc) (cache_TTL cc), 0 :: nat), r)"
    using assms by (simp add: app.svc_inv_def cache_ok_def New_inv)
  then show ?thesis
    using app.WarmUpCache_state [of "((NewLRUCacheTTL (cache_Capacity cc) (cache_TTL cc), 0), r)" cenv env js parse_ok "cache_WarmUpN cc"]
    by (auto simp: warm_start_def Let_def split: prod.splits)
qed

lemma new_process_parts:
  assumes "pg_ok (snd s)"
  shows "app.svc_inv (snd (new_process reconnect cenv (calm env) js parse_ok cc (k, s)))"
    and "app.coherent (snd (new_process reconnect cenv (calm env) js parse_ok cc (k, s)))"
    and "pg_view (snd (snd (new_process reconnect cenv (calm env) js parse_ok cc (k, s)))) = pg_view (snd s)"
  using warm_start_state [OF assms] warm_start_view [OF assms]
  by (simp_all add: new_process_def case_prod_beta)

lemma wire_partition:
  assumes "reads_partition broker topic position commits"
  shows "reads_partition (wire broker requests svc) topic (position \<circ> fst) (commits \<circ> fst)"
proof -
  note D = reads_partitionD [OF assms]
  show ?thesis
    unfolding reads_partition_def
  proof (intro conjI allI impI)
    fix w m w1
    assume "FetchMessage (wire broker requests svc) w = (Inl m, w1)"
    then have "FetchMessage broker (fst w) = (Inl m, fst w1)" by (auto simp: wire_def split: prod.splits)
    note f = D(1) [OF this]
    show "(commits \<circ> fst) w1 = (commits \<circ> fst) w" "(position \<circ> fst) w1 = Suc (offset_of m)"
      "topic (offset_of m) = Some (msg_Value m)"
      "first_from topic ((position \<circ> fst) w) (offset_of m) \<or> first_from topic ((commits \<circ> fst) w) (offset_of m)"
      using f by simp_all
  next
    fix w e w1
    assume "FetchMessage (wire broker requests svc) w = (Inr e, w1)"
    then have "FetchMessage broker (fst w) = (Inr e, fst w1)" by (auto simp: wire_def split: prod.splits)
    from D(2) [OF this] show "(commits \<circ> fst) w1 = (commits \<circ> fst) w"
      "(position \<circ> fst) w1 = (position \<circ> fst) w \<or> (position \<circ> fst) w1 = (commits \<circ> fst) w"
      by simp_all
  next
    fix w m e w1
    assume "CommitMessages (wire broker requests svc) m w = (e, w1)"
    then have "CommitMessages broker m (fst w) = (e, fst w1)" by (auto simp: wire_def split: prod.splits)
    from D(3) [OF this] show "(position \<circ> fst) w1 = (position \<circ> fst) w"
      "(commits \<circ> fst) w1 = Suc (offset_of m) \<or> e \<noteq> None \<and> (commits \<circ> fst) w1 = (commits \<circ> fst) w"
      by simp_all
  next
    fix w d b w1
    assume "after_or_done (wire broker requests svc) d w = (b, w1)"
    then have "after_or_done broker d (fst w) = (b, fst w1)" by (auto simp: wire_def split: prod.splits)
    from D(4) [OF this] show "(commits \<circ> fst) w1 = (commits \<circ> fst) w" "(position \<circ> fst) w1 = (position \<circ> fst) w"
      by simp_all
  qed
qed

lemma wire_saves_apart: "saves_apart (wire broker requests svc) (position \<circ> fst) (commits \<circ> fst)"
  by (auto simp: saves_apart_def wire_def split: prod.splits)

lemma new_process_resumes:
  "resumes reconnect position commits \<Longrightarrow>
    resumes (new_process reconnect cenv env js parse_ok cc) (position \<circ> fst) (commits \<circ> fst)"
  by (auto simp: resumes_def new_process_def)

text \<open>An invariant of the service and the calls, over any number of processes.\<close>

lemma sessions_inv:
  assumes "call_inv (wire broker requests svc) (\<lambda>(w, s). Q s)"
    and "\<And>k s cs. Q s cs \<Longrightarrow> Q (snd (restart (k, s))) cs" and "Q s []"
    and "sessions c (wire broker requests svc) restart ns (k, s) = (cs, (k1, s1))"
  shows "Q s1 cs"
  using sessions_call_inv [OF assms(1), of restart "(k, s)" "[]" c ns cs "(k1, s1)"] assms(2-4)
  by (auto simp: case_prod_beta)

lemma sessions_follow:
  assumes "\<forall>n. \<not> commit_lost env n" and "\<forall>w. list_all is_read (requests w)"
    and "sessions c (wire broker requests (app_service cenv (calm env) js parse_ok))
      (new_process reconnect cenv (calm env) js parse_ok cc) ns (k, app_start cap d) = (cs, (k1, s))"
  shows "app.follows cenv env js parse_ok s cs"
proof (rule sessions_inv [where Q = "app.follows cenv env js parse_ok", OF _ _ app_start_follows assms(3)])
  show "call_inv (wire broker requests (app_service cenv (calm env) js parse_ok))
      (\<lambda>(w, s). app.follows cenv env js parse_ok s)"
    using assms(2) by (intro app.wire_follows SaveFromMessage_error_definite [OF assms(1)]) simp_all
  fix k s cs
  assume *: "app.follows cenv env js parse_ok s cs"
  then have ok: "pg_ok (snd s)" by (simp add: app.follows_def app.svc_inv_def)
  show "app.follows cenv env js parse_ok (snd (new_process reconnect cenv (calm env) js parse_ok cc (k, s))) cs"
    using * by (simp add: app.follows_def new_process_parts [OF ok])
qed

lemma sessions_answers:
  assumes "\<And>raw e. decode_order js raw = Inl e \<Longrightarrow> \<not> errors_is e (Sentinel Validate_ErrInvalidOrder)"
    and "\<And>k e. fault env k = Some e \<Longrightarrow> \<not> errors_is e (Sentinel Validate_ErrInvalidOrder)"
    and "\<forall>w. list_all is_read (requests w)"
    and "sessions c (wire broker requests (app_service cenv (calm env) js parse_ok))
      (new_process reconnect cenv (calm env) js parse_ok cc) ns (k, app_start cap d) = (cs, (k1, s))"
  shows "app.answers_hold parse_ok cenv env js s cs"
proof (rule sessions_inv [where Q = "app.answers_hold parse_ok cenv env js", OF _ _ app_start_answers_hold assms(4)])
  show "call_inv (wire broker requests (app_service cenv (calm env) js parse_ok))
      (\<lambda>(w, s). app.answers_hold parse_ok cenv env js s)"
    by (rule app_answers_call_inv [OF assms(1-3)])
  fix k s cs
  assume *: "app.answers_hold parse_ok cenv env js s cs"
  then have ok: "pg_ok (snd s)" by (simp add: app.answers_hold_def app.svc_inv_def)
  show "app.answers_hold parse_ok cenv env js (snd (new_process reconnect cenv (calm env) js parse_ok cc (k, s))) cs"
    by (intro app.answers_hold_mono [OF *]) (simp_all add: new_process_parts [OF ok])
qed

section \<open>A topic\<close>

text \<open>
  A partition with the values \<open>vs\<close>, for evaluations: the world is the position and the committed
  offset, commits succeed, and at the end of the log the context is cancelled.
\<close>

definition topic_of :: "string list \<Rightarrow> nat \<rightharpoonup> string" where
  "topic_of vs off = (if off < length vs then Some (vs ! off) else None)"

definition topic_env :: "string list \<Rightarrow> (nat \<times> nat) consumer_env" where
  "topic_env vs =
     \<lparr>FetchMessage = (\<lambda>(p, k). if p < length vs \<and> int p < 18446744073709551616 then (Inl (message_at p (vs ! p)), (Suc p, k))
        else (Inr (Sentinel Context_Canceled), (p, k))),
      CommitMessages = (\<lambda>m (p, k). (None, (p, Suc (offset_of m)))),
      saveFromMessage = (\<lambda>t v w. (if v = ''db down'' then Some (Errorf ''db down'') else None, w)),
      ctx_Err = (\<lambda>(p, k). if p < length vs then None else Some (Sentinel Context_Canceled)),
      after_or_done = (\<lambda>d w. (True, w)),
      Int63n = (\<lambda>n w. 0)\<rparr>"

definition reread :: "nat \<times> nat \<Rightarrow> nat \<times> nat" where
  "reread = (\<lambda>(p, k). (k, k))"

lemma offset_of_message_at: "int off < 18446744073709551616 \<Longrightarrow> offset_of (message_at off v) = off"
  by (simp add: offset_of_def message_at_def unsigned_of_nat take_bit_eq_mod)

lemma topic_env_partition: "reads_partition (topic_env vs) (topic_of vs) fst snd"
  unfolding reads_partition_def
  by (auto simp: topic_env_def topic_of_def offset_of_message_at first_from_def split: if_splits)
     (simp_all add: message_at_def)

lemma topic_env_apart: "saves_apart (topic_env vs) fst snd"
  by (auto simp: saves_apart_def topic_env_def)

lemma reread_resumes: "resumes reread fst snd"
  by (auto simp: resumes_def reread_def)

section \<open>At least once\<close>

text \<open>C7: nothing is skipped: over any number of processes, each ended at any point, the committed offset
  of the group never goes back, and every message between its first and its last value was fetched
  by one of them and given to the saver right after.\<close>
theorem every_offset_is_processed:
  assumes "reads_partition env topic position commits" and "saves_apart env position commits"
    and "resumes restart position commits"
    and "sessions c env restart ns w = (cs, w1)"
  shows "commits w \<le> commits w1 \<and>
    (\<forall>off v. commits w \<le> off \<longrightarrow> off < commits w1 \<longrightarrow> topic off = Some v \<longrightarrow>
       (\<exists>m xs r ys. offset_of m = off \<and> cs = xs @ Fetched m # Saved v r # ys))"
  using sessions_delivered [OF assms] unfolding delivered_def by blast

lemma every_offset_is_processed_witness:
  "\<exists>m xs r ys. offset_of m = 1 \<and>
     fst (sessions sample_consumer (topic_env [''x'', ''y'', ''z'']) reread [2, 3] (0, 0)) = xs @ Fetched m # Saved ''y'' r # ys"
proof -
  let ?run = "sessions sample_consumer (topic_env [''x'', ''y'', ''z'']) reread [2, 3] (0, 0)"
  obtain cs w1 where run: "?run = (cs, w1)" by (cases ?run)
  have "snd ?run = (3, 3)" by code_simp
  then have "w1 = (3, 3)" by (simp only: run snd_conv)
  moreover have "topic_of [''x'', ''y'', ''z''] 1 = Some ''y''" by (simp add: topic_of_def)
  ultimately have "\<exists>m xs r ys. offset_of m = 1 \<and> cs = xs @ Fetched m # Saved ''y'' r # ys"
    using every_offset_is_processed [OF topic_env_partition topic_env_apart reread_resumes run] by simp
  then show ?thesis by (simp only: run fst_conv)
qed

text \<open>C10: a message that was passed over is lost: once a later message was committed, no later process
  fetches it again, even when its own processing had failed for a moment.\<close>
theorem passed_over_is_lost:
  assumes "reads_partition env topic position commits" and "saves_apart env position commits"
    and "resumes restart position commits"
    and "sessions c env restart ns w = (cs, w1)"
    and "Committed m' None \<in> set cs" and "offset_of m \<le> offset_of m'"
    and "sessions c env restart ns' w1 = (cs', w2)"
  shows "Fetched m \<notin> set cs'"
proof
  assume m: "Fetched m \<in> set cs'"
  have "offset_of m' < commits w1"
    using sessions_delivered [OF assms(1-4)] assms(5) by (simp add: delivered_def)
  moreover have "commits w1 \<le> offset_of m"
    using sessions_delivered [OF assms(1-3,7)] m by (simp add: delivered_def)
  ultimately show False using assms(6) by simp
qed

lemma passed_over_is_lost_witness:
  "list_ex (\<lambda>call. call = Saved ''db down'' (Some (Errorf ''db down'')))
     (fst (sessions sample_consumer (topic_env [''db down'', ''y'', ''z'']) reread [2] (0, 0))) \<and>
   Fetched (message_at 0 ''db down'') \<notin>
     set (fst (sessions sample_consumer (topic_env [''db down'', ''y'', ''z'']) reread [2, 5]
       (snd (sessions sample_consumer (topic_env [''db down'', ''y'', ''z'']) reread [2] (0, 0)))))"
proof
  let ?env = "topic_env [''db down'', ''y'', ''z'']"
  let ?run = "sessions sample_consumer ?env reread [2] (0, 0)"
  obtain cs w1 where run: "?run = (cs, w1)" by (cases ?run)
  obtain cs' w2 where again: "sessions sample_consumer ?env reread [2, 5] w1 = (cs', w2)"
    by (cases "sessions sample_consumer ?env reread [2, 5] w1")
  show "list_ex (\<lambda>call. call = Saved ''db down'' (Some (Errorf ''db down''))) (fst ?run)" by code_simp
  have "list_ex (\<lambda>call. call = Committed (message_at 1 ''y'') None) (fst ?run)" by code_simp
  then have "Committed (message_at 1 ''y'') None \<in> set cs" by (simp only: run fst_conv list_ex_iff) blast
  from passed_over_is_lost [OF topic_env_partition topic_env_apart reread_resumes run this _ again,
      of "message_at 0 ''db down''"]
  show "Fetched (message_at 0 ''db down'') \<notin> set (fst (sessions sample_consumer ?env reread [2, 5] (snd ?run)))"
    by (simp add: run again offset_of_message_at del: sessions.simps)
qed

section \<open>From the topic to the database\<close>


text \<open>Two processes; the first ends before the second message.\<close>

definition two_processes :: "call list \<times> (nat \<times> nat) \<times> app_state" where
  "two_processes =
     sessions sample_consumer (wire (topic_env [''[a]'', ''{a}'', ''{b}'']) (\<lambda>w. [Op_GetOrder ''a'']) sample_app)
       (new_process reread sample_cenv (calm healthy) uid_json (\<lambda>_. True) (c_Cache warm_config)) [2, 3] ((0, 0), app_start 2 0)"






end
