(* ===== verification/Progress.thy ===== *)
theory Progress
  imports Delivery
begin

text \<open>
  The consumer of \<open>internal/kafka\<close> moves on: what a run achieves while nothing fails, beside what
  Delivery says of every run.
\<close>

section \<open>The values of a topic\<close>

text \<open>The values at the offsets from \<open>lo\<close> to before \<open>hi\<close>, and those a run gave to the saver.\<close>

definition values_between :: "(nat \<rightharpoonup> string) \<Rightarrow> nat \<Rightarrow> nat \<Rightarrow> string list" where
  "values_between topic lo hi = List.map_filter topic [lo..<hi]"

fun saved_value :: "call \<Rightarrow> string option" where
  "saved_value (Saved v r) = Some v"
| "saved_value _ = None"

definition saved_values :: "call list \<Rightarrow> string list" where
  "saved_values cs = List.map_filter saved_value cs"

lemma map_filter_append [simp]: "List.map_filter f (xs @ ys) = List.map_filter f xs @ List.map_filter f ys"
  by (simp add: List.map_filter_def)

lemma saved_values_simps [simp]:
  "saved_values [] = []"
  "saved_values (cs @ [call]) = saved_values cs @ (case saved_value call of None \<Rightarrow> [] | Some v \<Rightarrow> [v])"
  by (simp_all add: saved_values_def List.map_filter_def split: option.split)

lemma values_between_empty [simp]: "values_between topic lo lo = []"
  by (simp add: values_between_def List.map_filter_def)

lemma values_between_trans:
  "lo \<le> mid \<Longrightarrow> mid \<le> hi \<Longrightarrow> values_between topic lo hi = values_between topic lo mid @ values_between topic mid hi"
  using upt_add_eq_append [of lo mid "hi - mid"] by (simp add: values_between_def)

lemma values_between_none:
  "\<forall>k. lo \<le> k \<longrightarrow> k < hi \<longrightarrow> topic k = None \<Longrightarrow> values_between topic lo hi = []"
  by (simp add: values_between_def List.map_filter_def filter_empty_conv)

lemma values_between_first:
  assumes "first_from topic lo off" and "topic off = Some v"
  shows "values_between topic lo (Suc off) = [v]"
proof -
  have "values_between topic lo off = []"
    using assms(1) by (intro values_between_none) (simp add: first_from_def)
  moreover have "values_between topic off (Suc off) = [v]"
    using assms(2) by (simp add: values_between_def List.map_filter_def)
  ultimately show ?thesis
    using values_between_trans [of lo off "Suc off" topic] assms(1) by (simp add: first_from_def)
qed

section \<open>Progress\<close>

text \<open>
  The saver settles every value of the topic, and commits succeed, as long as the world is in \<open>I\<close>,
  which all calls keep that way.
\<close>

definition settles_in :: "('w \<Rightarrow> bool) \<Rightarrow> 'w consumer_env \<Rightarrow> (nat \<rightharpoonup> string) \<Rightarrow> bool" where
  "settles_in I env topic \<longleftrightarrow>
     (\<forall>w. I w \<longrightarrow>
       (\<forall>v\<in>ran topic. \<forall>t. should_commit (fst (saveFromMessage env t v w)) \<and> I (snd (saveFromMessage env t v w))) \<and>
       (\<forall>m. fst (CommitMessages env m w) = None \<and> I (snd (CommitMessages env m w))) \<and>
       I (snd (FetchMessage env w)) \<and> (\<forall>d. I (snd (after_or_done env d w))))"

lemma settles_inD:
  assumes "settles_in I env topic" and "I w"
  shows "v \<in> ran topic \<Longrightarrow> saveFromMessage env t v w = (r, w1) \<Longrightarrow> should_commit r \<and> I w1"
    and "CommitMessages env m w = (e, w1) \<Longrightarrow> e = None \<and> I w1"
    and "FetchMessage env w = (f, w1) \<Longrightarrow> I w1"
    and "after_or_done env d w = (b, w1) \<Longrightarrow> I w1"
  using assms unfolding settles_in_def by (metis fst_conv snd_conv)+

definition delivers :: "'w consumer_env \<Rightarrow> ('w \<Rightarrow> nat) \<Rightarrow> nat \<Rightarrow> bool" where
  "delivers env position end_off \<longleftrightarrow> (\<forall>w. position w < end_off \<longrightarrow> isl (fst (FetchMessage env w)))"

text \<open>From \<open>s\<close> to \<open>s1\<close>, everything in between was given to the saver and committed.\<close>

definition drained ::
    "('w \<Rightarrow> bool) \<Rightarrow> (nat \<rightharpoonup> string) \<Rightarrow> ('w \<Rightarrow> nat) \<Rightarrow> ('w \<Rightarrow> nat) \<Rightarrow> 'w run_state \<Rightarrow> 'w run_state \<Rightarrow> bool" where
  "drained I topic position commits s s1 \<longleftrightarrow>
     I (world s1) \<and> commits (world s1) = position (world s1) \<and> position (world s) \<le> position (world s1) \<and>
     saved_values (calls s1) = saved_values (calls s) @ values_between topic (position (world s)) (position (world s1))"

lemma drained_trans:
  "drained I topic position commits s s1 \<Longrightarrow> drained I topic position commits s1 s2 \<Longrightarrow>
    drained I topic position commits s s2"
  using values_between_trans [of "position (world s)" "position (world s1)" "position (world s2)" topic]
  by (auto simp: drained_def)

lemma run_iter_drains:
  assumes part: "reads_partition env topic position commits" and apart: "saves_apart env position commits"
    and sets: "settles_in I env topic" and I: "I (world s)" and p: "commits (world s) = position (world s)"
  shows "case run_iter c env s of
      Inl s1 \<Rightarrow> drained I topic position commits s s1 \<and>
        (isl (fst (FetchMessage env (world s))) \<longrightarrow> position (world s) < position (world s1))
    | Inr (_, s1) \<Rightarrow> drained I topic position commits s s1 \<and> \<not> isl (fst (FetchMessage env (world s)))"
proof -
  obtain res w where fetch: "FetchMessage env (world s) = (res, w)" by (cases "FetchMessage env (world s)")
  have Iw: "I w" by (rule settles_inD(3) [OF sets I fetch])
  show ?thesis
  proof (cases res)
    case (Inl m)
    note D = reads_partitionD(1) [OF part fetch [unfolded Inl]]
    have first: "first_from topic (position (world s)) (offset_of m)" and val: "topic (offset_of m) = Some (msg_Value m)"
      using D p by auto
    let ?s = "s\<lparr>world := w, calls := calls s @ [Fetched m], retry := retryInitial c, consumed := Suc (consumed s)\<rparr>"
    obtain err w1 where save: "saveFromMessage env (processTimeout c) (msg_Value m) w = (err, w1)"
      by (cases "saveFromMessage env (processTimeout c) (msg_Value m) w")
    have "msg_Value m \<in> ran topic" using val by (auto simp: ran_def)
    then have s1: "should_commit err" "I w1" using settles_inD(1) [OF sets Iw _ save] by simp_all
    obtain b s1 where handle: "handleMessage c env m ?s = (b, s1)" by (cases "handleMessage c env m ?s")
    then have b: "b" "world s1 = w1" "calls s1 = calls s @ [Fetched m, Saved (msg_Value m) err]"
      using s1(1) by (auto simp: handleMessage_def save Let_def split: option.splits)
    obtain e w2 where com: "CommitMessages env m w1 = (e, w2)" by (cases "CommitMessages env m w1")
    have e: "e = None" "I w2" using settles_inD(2) [OF sets s1(2) com] by simp_all
    have "position w1 = Suc (offset_of m)" using apart save D by (simp add: saves_apart_def)
    then have w2: "position w2 = Suc (offset_of m)" "commits w2 = Suc (offset_of m)"
      using reads_partitionD(3) [OF part com] e(1) by simp_all
    have calls: "saved_values (calls s @ [Fetched m, Saved (msg_Value m) err, Committed m e]) =
        saved_values (calls s) @ [msg_Value m]"
      by (simp add: saved_values_def List.map_filter_def)
    have "run_iter c env s = Inl (commitSafely env m s1)"
      using b by (simp add: run_iter_def fetch Inl handle Let_def)
    moreover have "world (commitSafely env m s1) = w2"
        "calls (commitSafely env m s1) = calls s @ [Fetched m, Saved (msg_Value m) err, Committed m e]"
      using b by (simp_all add: commitSafely_def com)
    ultimately show ?thesis
      using e w2 calls values_between_first [OF first val] first
      by (simp add: drained_def first_from_def)
  next
    case (Inr e)
    have w: "commits w = position w" "position w = position (world s)"
      using reads_partitionD(2) [OF part fetch [unfolded Inr]] p by auto
    have *: "drained I topic position commits s s1" if "world s1 = w1" "I w1" "commits w1 = commits w" "position w1 = position w"
      "saved_values (calls s1) = saved_values (calls s)" for s1 w1
      using that w by (simp add: drained_def)
    have sleep: "I w1" "commits w1 = commits w" "position w1 = position w" if "after_or_done env d w = (b, w1)" for d b w1
      using settles_inD(4) [OF sets Iw that] reads_partitionD(4) [OF part that] by simp_all
    show ?thesis
      using Iw sleep
      by (auto simp: run_iter_def sleepWithBackoff_def fetch Inr Let_def saved_values_def List.map_filter_def
          intro!: * split: prod.split)
  qed
qed

lemma state_after_drains:
  assumes part: "reads_partition env topic position commits" and apart: "saves_apart env position commits"
    and sets: "settles_in I env topic" and del: "delivers env position end_off"
    and I: "I w" and p: "position w = commits w"
  shows "drained I topic position commits (init_run c w) (state_after c env w n)"
    and "min end_off (commits w + n) \<le> commits (world (state_after c env w n))"
proof -
  define ends where "ends s s1 n \<longleftrightarrow> drained I topic position commits s s1 \<and>
    min end_off (position (world s) + n) \<le> position (world s1)" for s s1 :: "'a run_state" and n
  have "case run_loop c env n s of Inl s1 \<Rightarrow> ends s s1 n | Inr (_, s1) \<Rightarrow> ends s s1 n"
    if "I (world s)" "commits (world s) = position (world s)" for s
    using that
  proof (induction n arbitrary: s)
    case (Suc n)
    note iter = run_iter_drains [OF part apart sets Suc.prems, of c]
    have here: "position (world s) < end_off \<Longrightarrow> isl (fst (FetchMessage env (world s)))"
      using del by (simp add: delivers_def)
    show ?case
    proof (cases "run_iter c env s")
      case (Inl s1)
      then have d: "drained I topic position commits s s1"
        and moves: "position (world s) < end_off \<Longrightarrow> position (world s) < position (world s1)"
        using iter here by simp_all
      then have "I (world s1)" "commits (world s1) = position (world s1)" "position (world s) \<le> position (world s1)"
        by (simp_all add: drained_def)
      then have IH: "case run_loop c env n s1 of Inl s2 \<Rightarrow> ends s1 s2 n | Inr (_, s2) \<Rightarrow> ends s1 s2 n"
        using Suc.IH by blast
      have "ends s s2 (Suc n)" if "ends s1 s2 n" for s2
        using that drained_trans [OF d, of s2] moves \<open>position (world s) \<le> position (world s1)\<close>
        by (cases "position (world s) < end_off") (auto simp: ends_def drained_def)
      then show ?thesis using IH by (auto simp: Inl split: sum.splits prod.splits)
    next
      case (Inr r)
      then have "drained I topic position commits s (snd r)" "\<not> position (world s) < end_off"
        using iter here by (auto split: prod.splits)
      then show ?thesis by (auto simp: Inr ends_def drained_def split: prod.split)
    qed
  qed (simp add: ends_def drained_def)
  from this [of "init_run c w"] have "ends (init_run c w) (state_after c env w n) n"
    using I p by (auto simp: state_after_def init_run_def split: sum.splits prod.splits)
  then show "drained I topic position commits (init_run c w) (state_after c env w n)"
    and "min end_off (commits w + n) \<le> commits (world (state_after c env w n))"
    using p by (simp_all add: ends_def drained_def init_run_def)
qed

text \<open>The saver settles each value in every world.\<close>

definition settles :: "'w consumer_env \<Rightarrow> (nat \<rightharpoonup> string) \<Rightarrow> bool" where
  "settles env topic \<longleftrightarrow>
     (\<forall>v\<in>ran topic. \<forall>t w. should_commit (fst (saveFromMessage env t v w))) \<and>
     (\<forall>m w. fst (CommitMessages env m w) = None)"

lemma settles_everywhere: "settles env topic \<Longrightarrow> settles_in (\<lambda>_. True) env topic"
  by (simp add: settles_def settles_in_def)

text \<open>C8: a healthy consumer drains the topic: while the reader delivers, the saver answers every value of
  the topic with success or a rejection and commits succeed, each iteration moves the committed
  offset on, so that after as many iterations as there are messages all of them are committed, and
  each was given to the saver once, in the order of the topic.\<close>
theorem consumer_drains_topic:
  assumes "reads_partition env topic position commits" and "saves_apart env position commits"
    and "settles env topic" and "delivers env position end_off"
    and "position w = commits w" and "end_off \<le> commits w + n"
  shows "end_off \<le> commits (world (state_after c env w n)) \<and>
    saved_values (calls (state_after c env w n)) =
      values_between topic (commits w) (commits (world (state_after c env w n)))"
proof
  note drains = state_after_drains [OF assms(1,2) settles_everywhere [OF assms(3)] assms(4) TrueI assms(5), where c = c and n = n]
  show "end_off \<le> commits (world (state_after c env w n))" using drains(2) assms(6) by simp
  show "saved_values (calls (state_after c env w n)) =
      values_between topic (commits w) (commits (world (state_after c env w n)))"
    using drains(1) assms(5) by (simp add: drained_def init_run_def)
qed

lemma consumer_drains_topic_witness:
  "3 \<le> snd (world (state_after sample_consumer (topic_env [''x'', ''y'', ''z'']) (0, 0) 3)) \<and>
   saved_values (calls (state_after sample_consumer (topic_env [''x'', ''y'', ''z'']) (0, 0) 3)) = [''x'', ''y'', ''z'']"
proof -
  let ?env = "topic_env [''x'', ''y'', ''z'']" and ?topic = "topic_of [''x'', ''y'', ''z'']"
  let ?s = "state_after sample_consumer ?env (0, 0) 3"
  have "settles ?env ?topic"
    by (auto simp: settles_def topic_env_def topic_of_def should_commit_def ran_def less_Suc_eq split: if_splits)
  moreover have "delivers ?env fst 3"
    by (auto simp: delivers_def topic_env_def)
  ultimately have "3 \<le> snd (world ?s) \<and> saved_values (calls ?s) = values_between ?topic 0 (snd (world ?s))"
    using consumer_drains_topic [OF topic_env_partition topic_env_apart, where w = "(0, 0)" and n = 3 and c = sample_consumer]
    by simp
  moreover have "world ?s = (3, 3)" by code_simp
  moreover have "values_between ?topic 0 3 = [''x'', ''y'', ''z'']" by code_simp
  ultimately show ?thesis by simp
qed

end
