(* ===== verification/Repo_Types.thy ===== *)
theory Repo_Types
  imports Repo_Props
begin

text \<open>
  The types of the columns, seen from the orders: what is read back from the tables satisfies every
  condition the schema has for what is written to them, so that an order that was read can be saved
  again.
\<close>

definition well_typed :: "pg_env \<Rightarrow> order \<Rightarrow> bool" where
  "well_typed env ord \<longleftrightarrow> OrderUID ord \<noteq> [] \<and> CustomerID ord \<noteq> [] \<and> texts_ok env ord \<and> ranges_ok ord"

definition has_payment :: "string \<Rightarrow> db \<Rightarrow> bool" where
  "has_payment uid d \<longleftrightarrow> list_ex (\<lambda>(u, _). u = uid) (t_payments d)"

definition typed_db :: "pg_env \<Rightarrow> db \<Rightarrow> bool" where
  "typed_db env d \<longleftrightarrow>
     (\<forall>uid ord. db_view d uid = Some ord \<longrightarrow> OrderUID ord = uid \<and> well_typed env ord \<and> has_payment uid d) \<and>
     (\<forall>uid q. map_of (t_payments d) uid = Some q \<longrightarrow> text_ok env (pTransaction q))"

lemma has_payment_iff: "has_payment uid d \<longleftrightarrow> map_of (t_payments d) uid \<noteq> None"
  by (force simp: has_payment_def list_ex_iff map_of_eq_None_iff)

lemma savable_typed: "savable env ord d \<Longrightarrow> well_typed env ord"
  by (simp add: savable_def admissible_def well_typed_def)

lemma typed_savable: "well_typed env ord \<Longrightarrow> has_payment (OrderUID ord) d \<Longrightarrow> savable env ord d"
  by (simp add: savable_def admissible_def well_typed_def transaction_free_def has_payment_def)

text \<open>Neither the order of the items nor what storing changes takes the types away.\<close>

lemma well_typed_same_items:
  assumes "same_items a b" and "well_typed env b"
  shows "well_typed env a"
proof -
  have set: "set (item_list a) = set (item_list b)" using assms(1) by (metis same_items_def mset_eq_setD)
  have a: "a = b\<lparr>Items := Items a\<rparr>" using assms(1) by (cases a; cases b) (simp add: same_items_def)
  then obtain its where its: "a = b\<lparr>Items := its\<rparr>" by blast
  show ?thesis
    using assms(2) set unfolding its
    by (simp add: well_typed_def texts_ok_def ranges_ok_def list_all_iff)
qed

lemma well_typed_kept:
  assumes "well_typed env ord" and "\<And>q. map_of (t_payments d) (OrderUID ord) = Some q \<Longrightarrow> text_ok env (pTransaction q)"
  shows "well_typed env (kept d ord)"
  using assms
  by (auto simp: well_typed_def texts_ok_def ranges_ok_def kept_def Let_def append_nil_def split: option.split)

lemma typed_db_empty: "typed_db env empty_db"
  by (simp add: typed_db_def db_view_def empty_db_def)

lemma typed_db_save:
  assumes d: "typed_db env d" and ord: "savable env ord d"
  shows "typed_db env (save_db ord d)"
proof -
  have trans: "text_ok env (pTransaction q)" if "map_of (t_payments d) uid = Some q" for uid q
    using d that by (simp add: typed_db_def)
  have kept: "well_typed env (kept d ord)" by (rule well_typed_kept [OF savable_typed [OF ord] trans])
  have "text_ok env (pTransaction (Payment (kept d ord)))"
    using kept by (simp add: well_typed_def texts_ok_def Let_def)
  then have "text_ok env (pTransaction q)" if "map_of (t_payments (save_db ord d)) uid = Some q" for uid q
    using that trans by (auto simp: parts_save simp del: save_db_simps split: if_splits)
  moreover have "OrderUID o' = uid \<and> well_typed env o' \<and> has_payment uid (save_db ord d)"
    if "db_view (save_db ord d) uid = Some o'" for uid o'
    using that kept d
    by (auto simp: view_simps typed_db_def has_payment_iff parts_save simp del: save_db_simps split: if_splits)
      (simp_all add: kept_def)
  ultimately show ?thesis unfolding typed_db_def by blast
qed

lemma Save_typed_db:
  assumes "typed_db env (pg_db s)"
  shows "typed_db env (pg_db (snd (Save (calm env) p s)))"
proof (cases p)
  case None
  then show ?thesis using assms by (simp add: Save_def)
next
  case (Some ord)
  obtain res s1 where run: "Save (calm env) (Some ord) s = (res, s1)" by (cases "Save (calm env) (Some ord) s")
  have "pg_db s1 = pg_db s \<or> pg_db s1 = save_db ord (pg_db s) \<and> savable (calm env) ord (pg_db s)"
  proof (cases res)
    case None
    then show ?thesis using run by (simp add: Save_ok_iff)
  next
    case (Some err)
    with run have "Save (calm env) (Some ord) s = (Some err, s1)" by simp
    then show ?thesis by (cases rule: Save_error_cases) auto
  qed
  moreover have "savable (calm env) ord d = savable env ord d" for d
  proof -
    have "item_texts_ok (calm env) = item_texts_ok env" by (rule ext) (simp add: item_texts_ok_def)
    then show ?thesis by (simp add: savable_def admissible_def texts_ok_def)
  qed
  ultimately show ?thesis using assms typed_db_save run by (auto simp: Some simp del: save_db_simps)
qed

lemma Saves_typed_db: "typed_db env (pg_db (fold (\<lambda>p s. snd (Save (calm env) p s)) ps new_pg))"
proof -
  have "typed_db env (pg_db s) \<Longrightarrow> typed_db env (pg_db (fold (\<lambda>p s. snd (Save (calm env) p s)) ps s))" for s
    by (induction ps arbitrary: s) (simp_all add: Save_typed_db)
  then show ?thesis by (simp add: new_pg_def typed_db_empty)
qed

text \<open>An order as it is in the tables is kept as it is.\<close>

lemma kept_view:
  assumes "db_view d uid = Some ord'" and "OrderUID ord' = uid" and "same_items ord ord'" and "has_payment uid d"
  shows "same_items (kept d ord) ord'"
proof -
  obtain r where r: "ord' = with_parts (map_of (t_deliveries d) uid) (map_of (t_payments d) uid)
      (append_nil (stored_items d uid)) (base_order r)"
    using assms(1) by (auto simp: db_view_def)
  obtain q where q: "map_of (t_payments d) uid = Some q" using assms(4) by (auto simp: has_payment_iff)
  have ord: "ord\<lparr>Items := None\<rparr> = ord'\<lparr>Items := None\<rparr>" "mset (item_list ord) = mset (item_list ord')"
    using assms(3) by (simp_all add: same_items_def)
  then obtain its where its: "ord = ord'\<lparr>Items := its\<rparr>" by (cases ord; cases ord') simp
  have "Payment ord' = q" "of_micros (to_micros (DateCreated ord')) = DateCreated ord'"
    by (simp_all add: r q with_parts_def base_order_def of_micros_def to_micros_def split: option.split)
  then have "kept d ord = ord'\<lparr>Items := append_nil (item_list ord)\<rparr>"
    using assms(2) q by (simp add: kept_def its)
  then show ?thesis using ord(2) by (simp add: same_items_def)
qed

text \<open>C21: what is read is well typed and can be written back: over any history of saves, an order that
  \<open>GetByUID\<close> answers satisfies every condition of the schema (texts, \<open>INTEGER\<close> ranges, checks, keys),
  and saving it again leaves all orders as they are, but for the order of its items.\<close>
theorem orders_read_can_be_saved:
  assumes "s = fold (\<lambda>p s. snd (Save (calm env) p s)) ps new_pg"
    and "GetByUID (calm env) uid s = (Inr (Some ord), s1)"
  shows "savable env ord (pg_db s) \<and>
    (\<forall>s2. Save (calm env) (Some ord) s1 = (None, s2) \<longrightarrow>
      (\<forall>k. rel_option same_items (db_view (pg_db s2) k) (db_view (pg_db s) k)))"
proof -
  have typed: "typed_db env (pg_db s)" unfolding assms(1) by (rule Saves_typed_db)
  have inv: "pg_db s1 = pg_db s" using GetByUID_db [of env uid s] assms(2) by simp
  obtain ord' where view: "db_view (pg_db s) uid = Some ord'" and same: "same_items ord ord'"
    using GetByUID_result [OF assms(2)] by (auto simp: option_rel_Some1)
  have ord': "OrderUID ord' = uid" "well_typed env ord'" "has_payment uid (pg_db s)"
    using typed view by (simp_all add: typed_db_def)
  have uid: "OrderUID ord = uid" using same ord'(1) by (cases ord; cases ord') (simp add: same_items_def)
  have savable: "savable env ord (pg_db s)"
    by (rule typed_savable) (simp_all add: uid ord' well_typed_same_items [OF same])
  have "rel_option same_items (db_view (pg_db s2) k) (db_view (pg_db s) k)"
    if "Save (calm env) (Some ord) s1 = (None, s2)" for s2 k
  proof -
    have "db_view (pg_db s2) = (db_view (pg_db s))(uid \<mapsto> kept (pg_db s) ord)"
      using that by (simp add: Save_ok_iff inv view_simps uid del: save_db_simps)
    moreover have "same_items (kept (pg_db s) ord) ord'"
      by (rule kept_view [OF view ord'(1) same ord'(3)])
    ultimately show ?thesis using view by (auto intro: option.rel_refl simp: same_items_def)
  qed
  with savable show ?thesis by blast
qed

lemma orders_read_can_be_saved_witness:
  "\<exists>ord s1. GetByUID (calm healthy) ''A'' (snd (Save (calm healthy) (Some (sample_order ''A'')) new_pg)) = (Inr (Some ord), s1) \<and>
     savable healthy ord (pg_db (snd (Save (calm healthy) (Some (sample_order ''A'')) new_pg)))"
proof -
  let ?s = "snd (Save (calm healthy) (Some (sample_order ''A'')) new_pg)"
  let ?get = "GetByUID (calm healthy) ''A'' ?s"
  have "case fst ?get of Inr (Some ord) \<Rightarrow> True | _ \<Rightarrow> False" by code_simp
  then obtain ord s1 where get: "?get = (Inr (Some ord), s1)"
    by (cases ?get) (auto split: sum.splits option.splits)
  have "?s = fold (\<lambda>p s. snd (Save (calm healthy) p s)) [Some (sample_order ''A'')] new_pg" by simp
  from orders_read_can_be_saved [OF this get] get show ?thesis by blast
qed

end
