(* ===== verification/Topic_Stored.thy ===== *)
theory Topic_Stored
  imports Progress Repo_Types
begin

text \<open>
  The whole path while nothing fails: \<open>internal/kafka\<close> reads the topic to its end, \<open>internal/usecase\<close>
  takes every message, and \<open>internal/repo/postgres\<close> holds the outcome.  Which messages a database that
  works can refuse is said by \<open>storable\<close>.
\<close>

section \<open>Messages that can be settled\<close>

text \<open>
  One document, and, if the validator accepts its order, an order that the columns can hold, with
  its own UID as the payment's transaction.
\<close>

definition storable :: "pg_env \<Rightarrow> json_lib \<Rightarrow> (string \<Rightarrow> bool) \<Rightarrow> string \<Rightarrow> bool" where
  "storable env js parse_ok v \<longleftrightarrow>
     (case message_order js v of
        None \<Rightarrow> False
      | Some ord \<Rightarrow> valid_order parse_ok ord \<longrightarrow> well_typed env ord \<and> pTransaction (Payment ord) = OrderUID ord)"

definition own_transactions :: "db \<Rightarrow> bool" where
  "own_transactions d \<longleftrightarrow> list_all (\<lambda>(uid, q). pTransaction q = uid) (t_payments d)"

lemma own_transactions_mem: "own_transactions d \<Longrightarrow> (uid, q) \<in> set (t_payments d) \<Longrightarrow> pTransaction q = uid"
  by (auto simp: own_transactions_def list_all_iff)

lemma own_savable:
  assumes "own_transactions d" and "well_typed env ord" and "pTransaction (Payment ord) = OrderUID ord"
  shows "savable env ord d"
proof -
  have "transaction_free ord d"
    using own_transactions_mem [OF assms(1)] assms(3) by (fastforce simp: transaction_free_def list_ex_iff)
  then show ?thesis using assms(2) by (simp add: savable_def admissible_def well_typed_def)
qed

lemma own_save_db:
  assumes "own_transactions d" and "pTransaction (Payment ord) = OrderUID ord"
  shows "own_transactions (save_db ord d)"
proof -
  have "pTransaction q = uid" if "(uid, q) \<in> set (t_payments (save_db ord d))" for uid q
  proof -
    have "(uid, q) \<in> insert (OrderUID ord, Payment ord)
        ((\<lambda>(u, q). (u, (Payment ord)\<lparr>pTransaction := pTransaction q\<rparr>)) ` {r \<in> set (t_payments d). (\<lambda>(u, _). u = OrderUID ord) r} \<union>
         {r \<in> set (t_payments d). \<not> (\<lambda>(u, _). u = OrderUID ord) r})"
      using that set_upsert unfolding save_db_def Let_def db.select_convs by (rule rev_subsetD)
    then show ?thesis using own_transactions_mem [OF assms(1)] assms(2) by auto
  qed
  then show ?thesis by (auto simp: own_transactions_def list_all_iff simp del: save_db_simps)
qed

section \<open>One message\<close>

lemma savable_calm [simp]: "savable (calm env) ord d = savable env ord d"
proof -
  have "item_texts_ok (calm env) = item_texts_ok env" by (rule ext) (simp add: item_texts_ok_def)
  then show ?thesis by (simp add: savable_def admissible_def texts_ok_def)
qed

text \<open>The state while the topic is read.\<close>

definition healthy_state :: "app_state \<Rightarrow> bool" where
  "healthy_state s \<longleftrightarrow> app.svc_inv s \<and> own_transactions (pg_db (snd s))"

lemma storable_settled:
  assumes ok: "\<forall>n. fault env n = None" and s: "healthy_state s" and v: "storable env js parse_ok v"
    and run: "SaveFromMessage (app_service cenv (calm env) js parse_ok) v s = (r, s1)"
  shows "should_commit r" and "healthy_state s1"
    and "r = None \<longleftrightarrow> (\<exists>ord. message_order js v = Some ord \<and> valid_order parse_ok ord)"
proof -
  obtain ord where ord: "message_order js v = Some ord"
    and can: "valid_order parse_ok ord \<Longrightarrow> well_typed env ord \<and> pTransaction (Payment ord) = OrderUID ord"
    using v by (auto simp: storable_def split: option.splits)
  obtain c d where sc: "s = (c, d)" by (cases s)
  have inv: "app.svc_inv (c, d)" and own: "own_transactions (pg_db d)" using s by (simp_all add: healthy_state_def sc)
  have inv1: "app.svc_inv s1"
    using app.SaveFromMessage_inv [OF inv, of cenv env js parse_ok v] run by (simp add: sc)
  have "should_commit r \<and> own_transactions (pg_db (snd s1)) \<and> (r = None \<longleftrightarrow> valid_order parse_ok ord)"
    using inv
  proof (cases rule: app.SaveFromMessage_cases [where raw = v and cenv = cenv and env = env and js = js and parse_ok = parse_ok])
    case (malformed err)
    then show ?thesis using ord by (simp add: app.decoded_message)
  next
    case (invalid ord' err)
    then have "ord' = ord" using ord by (simp add: app.decoded_message)
    then have "\<not> valid_order parse_ok ord" using invalid(2) Validate_iff [of parse_ok "Some ord"] by simp
    moreover have "should_commit r" using invalid run val.error_class by (auto simp: sc should_commit_iff)
    ultimately show ?thesis using invalid run own by (auto simp: sc)
  next
    case (not_saved ord' err d1)
    then have eq: "ord' = ord" using ord by (simp add: app.decoded_message)
    then have "valid_order parse_ok ord" using not_saved(2) Validate_iff [of parse_ok "Some ord"] by simp
    then have "savable env ord (pg_db d)" using own_savable [OF own] can by blast
    then have "fst (Save (calm env) (Some ord) d) = None"
      using ok Save_succeeds_iff_savable [of "calm env" ord d] by simp
    then show ?thesis using not_saved(3) by (simp add: eq port_defs)
  next
    case (saved ord' d1 c1)
    then have eq: "ord' = ord" using ord by (simp add: app.decoded_message)
    then have valid: "valid_order parse_ok ord" using saved(2) Validate_iff [of parse_ok "Some ord"] by simp
    have "Save (calm env) (Some ord) d = (None, d1)" using saved(4) by (simp add: eq port_defs)
    then have "pg_db d1 = save_db ord (pg_db d)" by (simp add: Save_ok_iff)
    then have "own_transactions (pg_db d1)" using own_save_db [OF own] can [OF valid] by simp
    then show ?thesis using saved(6) run valid by (auto simp: sc should_commit_iff)
  qed
  then show "should_commit r" "healthy_state s1"
    "r = None \<longleftrightarrow> (\<exists>ord. message_order js v = Some ord \<and> valid_order parse_ok ord)"
    using inv1 ord by (simp_all add: healthy_state_def)
qed

text \<open>Requests that read do not write.\<close>

lemma read_db:
  assumes "is_read op"
  shows "pg_db (snd (svc_step (app_service cenv (calm env) js parse_ok) op s)) = pg_db (snd s)"
proof -
  have get: "pg_db r1 = pg_db r" if "GetByUID (calm env) uid r = (x, r1)" for uid r x r1
    using GetByUID_db [of env uid r] that by simp
  have last: "pg_db r1 = pg_db r" if "LastN (calm env) n r = (x, r1)" for n r x r1
    using LastN_db [of env n r] that by simp
  have page: "pg_db r1 = pg_db r" if "ListByCustomer (calm env) cust l k r = (x, r1)" for cust l k r x r1
    using List_db [of env cust l k r] that by simp
  show ?thesis
    using assms
    by (cases op; cases s)
      (auto simp: GetOrder_def OrdersByCustomer_def WarmUpCache_def app_service_def port_defs Let_def
        split: prod.splits sum.splits option.splits bool.splits dest: get last page)
qed

lemma reads_healthy:
  assumes "list_all is_read ops" and "healthy_state s"
  shows "healthy_state (svc_run (app_service cenv (calm env) js parse_ok) ops s)"
  using assms
proof (induction ops arbitrary: s)
  case (Cons op ops)
  then have "healthy_state (svc_step (app_service cenv (calm env) js parse_ok) op s)"
    using read_db [of op cenv env js parse_ok s] app.svc_step_inv by (simp add: healthy_state_def)
  then show ?case using Cons by (simp add: app.svc_run_Cons)
qed (simp add: svc_run_def)

section \<open>The whole topic\<close>

text \<open>Under each UID the order of the last message whose order is valid.\<close>

definition topic_orders :: "json_lib \<Rightarrow> (string \<Rightarrow> bool) \<Rightarrow> string list \<Rightarrow> string \<rightharpoonup> order" where
  "topic_orders js parse_ok vs =
     fold (\<lambda>v m. case message_order js v of
        None \<Rightarrow> m
      | Some ord \<Rightarrow> if valid_order parse_ok ord then m(OrderUID ord \<mapsto> ord) else m) vs Map.empty"

lemma topic_orders_snoc:
  "topic_orders js parse_ok (vs @ [v]) =
    (case message_order js v of
       None \<Rightarrow> topic_orders js parse_ok vs
     | Some ord \<Rightarrow> if valid_order parse_ok ord then (topic_orders js parse_ok vs)(OrderUID ord \<mapsto> ord)
                   else topic_orders js parse_ok vs)"
  by (simp add: topic_orders_def split: option.split)

lemma topic_orders_Nil [simp]: "topic_orders js parse_ok [] = Map.empty"
  by (simp add: topic_orders_def)

text \<open>As long as only such messages came, what was accepted is what is valid.\<close>

definition accepts_valid ::
    "pg_env \<Rightarrow> json_lib \<Rightarrow> (string \<Rightarrow> bool) \<Rightarrow> app_state \<Rightarrow> call list \<Rightarrow> bool" where
  "accepts_valid env js parse_ok s cs \<longleftrightarrow>
     (list_all (storable env js parse_ok) (saved_values cs) \<longrightarrow>
        healthy_state s \<and> last_accepted js cs = topic_orders js parse_ok (saved_values cs))"

lemma wire_accepts_valid:
  assumes ok: "\<forall>n. fault env n = None" and reads: "\<forall>w. list_all is_read (requests w)"
  shows "call_inv (wire broker requests (app_service cenv (calm env) js parse_ok))
    (\<lambda>(w, s). accepts_valid env js parse_ok s)"
proof (rule wire_call_inv)
  fix w s cs and call :: call
  assume acc: "accepts_valid env js parse_ok s cs" and call: "\<And>raw r. call \<noteq> Saved raw r"
  have same: "saved_values (cs @ [call]) = saved_values cs" "last_accepted js (cs @ [call]) = last_accepted js cs"
    using call by (cases call; simp)+
  show "accepts_valid env js parse_ok s (cs @ [call])" using acc by (simp only: accepts_valid_def same)
  show "accepts_valid env js parse_ok (svc_run (app_service cenv (calm env) js parse_ok) (requests w) s) (cs @ [call])"
    using acc reads_healthy reads unfolding accepts_valid_def same by blast
next
  fix s cs raw
  assume acc: "accepts_valid env js parse_ok s cs"
  obtain r s1 where run: "SaveFromMessage (app_service cenv (calm env) js parse_ok) raw s = (r, s1)"
    by (cases "SaveFromMessage (app_service cenv (calm env) js parse_ok) raw s")
  have "accepts_valid env js parse_ok s1 (cs @ [Saved raw r])"
    unfolding accepts_valid_def
  proof
    assume "list_all (storable env js parse_ok) (saved_values (cs @ [Saved raw r]))"
    then have raw: "storable env js parse_ok raw" and cs: "list_all (storable env js parse_ok) (saved_values cs)"
      by simp_all
    then have s: "healthy_state s" and last: "last_accepted js cs = topic_orders js parse_ok (saved_values cs)"
      using acc by (simp_all add: accepts_valid_def)
    note settled = storable_settled [OF ok s raw run]
    obtain ord where ord: "message_order js raw = Some ord" using raw by (auto simp: storable_def split: option.splits)
    have "last_accepted js (cs @ [Saved raw r]) = topic_orders js parse_ok (saved_values cs @ [raw])"
      using settled(3) ord last by (cases r) (simp_all add: topic_orders_snoc accept_call_def)
    then show "healthy_state s1 \<and>
        last_accepted js (cs @ [Saved raw r]) = topic_orders js parse_ok (saved_values (cs @ [Saved raw r]))"
      using settled(2) by simp
  qed
  then show "accepts_valid env js parse_ok (snd (SaveFromMessage (app_service cenv (calm env) js parse_ok) raw s))
      (cs @ [Saved raw (fst (SaveFromMessage (app_service cenv (calm env) js parse_ok) raw s))])"
    by (simp add: run)
qed

lemma wire_settles:
  assumes ok: "\<forall>n. fault env n = None" and reads: "\<forall>w. list_all is_read (requests w)"
    and commit: "\<forall>m w. fst (CommitMessages broker m w) = None"
    and topic: "\<forall>v\<in>ran topic. storable env js parse_ok v"
  shows "settles_in (healthy_state \<circ> snd) (wire broker requests (app_service cenv (calm env) js parse_ok)) topic"
  unfolding settles_in_def
proof (intro allI impI conjI ballI)
  fix w :: "'a \<times> app_state" and v t m d
  assume w: "(healthy_state \<circ> snd) w"
  let ?env = "wire broker requests (app_service cenv (calm env) js parse_ok)"
  show "should_commit (fst (saveFromMessage ?env t v w))" "(healthy_state \<circ> snd) (snd (saveFromMessage ?env t v w))"
    if "v \<in> ran topic"
    using storable_settled [OF ok, of "snd w" js parse_ok v] topic w that
    by (simp_all add: wire_def case_prod_beta prod_eq_iff)
  show "fst (CommitMessages ?env m w) = None" "(healthy_state \<circ> snd) (snd (CommitMessages ?env m w))"
    "(healthy_state \<circ> snd) (snd (after_or_done ?env d w))"
    using commit w by (simp_all add: wire_def case_prod_beta)
  show "(healthy_state \<circ> snd) (snd (FetchMessage ?env w))"
    using reads_healthy reads w by (simp add: wire_def case_prod_beta)
qed

text \<open>C2: the whole path works: when the reader delivers a topic of storable messages, the database works
  and commits succeed, the consumer has committed the topic after as many iterations as it has
  offsets, and whatever is read meanwhile, the database then holds under each UID the order of the
  last valid message of the topic, and nothing else, and the cache agrees with it.\<close>
theorem topic_reaches_database:
  assumes "\<forall>n. fault env n = None" and "\<forall>n. \<not> commit_lost env n" and "\<forall>w. list_all is_read (requests w)"
    and "reads_partition broker topic position commits" and "delivers broker position end_off"
    and "\<forall>m w. fst (CommitMessages broker m w) = None"
    and "\<forall>v\<in>ran topic. storable env js parse_ok v" and "\<forall>off. end_off \<le> off \<longrightarrow> topic off = None"
    and "position k = commits k" and "end_off \<le> commits k + n"
    and "world (state_after c (wire broker requests (app_service cenv (calm env) js parse_ok))
      (k, app_start cap d) n) = (k1, s)"
  shows "end_off \<le> commits k1 \<and> cache_agrees s \<and>
    (\<forall>uid. rel_option pg_same
       (topic_orders js parse_ok (values_between topic (commits k) end_off) uid) (pg_view (snd s) uid))"
proof -
  let ?env = "wire broker requests (app_service cenv (calm env) js parse_ok)"
  define st where "st = state_after c ?env (k, app_start cap d) n"
  have st: "world st = (k1, s)" using assms(11) by (simp add: st_def)
  have start: "healthy_state (app_start cap d)"
    using app_start_inv by (simp add: healthy_state_def) (simp add: app_start_def new_pg_def empty_db_def own_transactions_def)
  have "delivers ?env (position \<circ> fst) end_off"
    using assms(5) by (simp add: delivers_def wire_def case_prod_beta)
  note drains = state_after_drains [OF wire_partition [OF assms(4)] wire_saves_apart
      wire_settles [OF assms(1,3,6,7)] this, where w = "(k, app_start cap d)" and c = c and n = n, folded st_def]
  have vals: "saved_values (calls st) = values_between topic (commits k) (commits k1)" and le: "end_off \<le> commits k1"
    using drains start assms(9,10) by (simp_all add: drained_def st init_run_def)
  have all: "list_all (storable env js parse_ok) (values_between topic lo hi)" for lo hi
    using assms(7) by (auto simp: values_between_def List.map_filter_def list_all_iff ran_def)
  have "accepts_valid env js parse_ok (snd (world st)) (calls st)"
    using state_after_call_inv [OF wire_accepts_valid [OF assms(1,3)], where w = "(k, app_start cap d)" and c = c and n = n]
      start by (simp add: st_def accepts_valid_def case_prod_beta)
  then have "last_accepted js (calls st) = topic_orders js parse_ok (values_between topic (commits k) (commits k1))"
    using all by (simp add: accepts_valid_def vals)
  moreover have "values_between topic (commits k) (commits k1) = values_between topic (commits k) end_off"
  proof (cases "commits k \<le> end_off")
    case True
    then show ?thesis
      using values_between_trans [OF True le, of topic] values_between_none [of end_off "commits k1" topic] assms(8) by simp
  next
    case False
    then show ?thesis
      using values_between_none [of "commits k" "commits k1" topic] values_between_none [of "commits k" end_off topic] assms(8)
      by simp
  qed
  moreover have "consume c broker requests (app_service cenv (calm env) js parse_ok) n k (app_start cap d) = (calls st, s)"
    using st by (simp add: consume_def Let_def st_def)
  note app_follows [OF assms(2,3) this]
  ultimately show ?thesis using le by (simp add: app.follows_def coherent_agrees)
qed

text \<open>Two orders and, between them, one that the validator rejects.\<close>

definition three_messages :: "string list" where
  "three_messages = [''{a}'', ''{}'', ''{b}'']"

lemma topic_reaches_database_witness:
  "rel_option pg_same (Some (sample_order ''b''))
     (pg_view (snd (snd (world (state_after sample_consumer (wire (topic_env three_messages) (\<lambda>w. [Op_GetOrder ''a'']) sample_app)
        ((0, 0), app_start 2 0) 3)))) ''b'')"
proof -
  let ?broker = "topic_env three_messages" and ?topic = "topic_of three_messages"
  let ?st = "world (state_after sample_consumer (wire ?broker (\<lambda>w. [Op_GetOrder ''a'']) sample_app) ((0, 0), app_start 2 0) 3)"
  obtain k1 s where run: "?st = (k1, s)" by (cases ?st)
  have storable: "list_all (storable healthy uid_json (\<lambda>_. True)) three_messages" by code_simp
  have "storable healthy uid_json (\<lambda>_. True) v" if "v \<in> ran ?topic" for v
    using that storable by (auto simp: ran_def topic_of_def list_all_iff split: if_splits)
  moreover have "delivers ?broker fst 3" by (auto simp: delivers_def topic_env_def three_messages_def)
  moreover have "\<forall>m w. fst (CommitMessages ?broker m w) = None" by (simp add: topic_env_def)
  moreover have "\<forall>off\<ge>3. ?topic off = None" by (simp add: topic_of_def three_messages_def)
  ultimately have "\<forall>uid. rel_option pg_same (topic_orders uid_json (\<lambda>_. True) (values_between ?topic 0 3) uid) (pg_view (snd s) uid)"
    using topic_reaches_database [OF _ _ _ topic_env_partition _ _ _ _ _ _ run, where end_off = 3]
    by (simp add: healthy_def)
  moreover have "topic_orders uid_json (\<lambda>_. True) (values_between ?topic 0 3) ''b'' = Some (sample_order ''b'')" by code_simp
  ultimately show ?thesis by (metis run snd_conv)
qed

end
