(* ===== verification/Router.thy ===== *)
theory Router
  imports Http_Props
begin

text \<open>
  The routes of \<open>NewRouter\<close> (\<open>internal/transport/http/router.go\<close>), from the method and the path of a
  request to the handler that answers it.  Finding the route is gin's: it is a parameter, of which
  \<open>gin_finds\<close> states what its documentation promises.
\<close>

section \<open>Patterns\<close>

text \<open>A path is a list of segments, each after a slash.\<close>

fun split_slash :: "string \<Rightarrow> string list" where
  "split_slash [] = [[]]"
| "split_slash (ch # s) =
     (if ch = CHR ''/'' then [] # split_slash s
      else (case split_slash s of [] \<Rightarrow> [[ch]] | x # xs \<Rightarrow> (ch # x) # xs))"

definition path_segments :: "string \<Rightarrow> string list option" where
  "path_segments path =
     (case path of [] \<Rightarrow> None | ch # s \<Rightarrow> if ch = CHR ''/'' then Some (split_slash s) else None)"

definition join_slash :: "string list \<Rightarrow> string" where
  "join_slash xs = concat (map (\<lambda>x. CHR ''/'' # x) xs)"

text \<open>\<open>:name\<close> takes one segment that is not empty, and \<open>*name\<close> the rest of the path with its slash.\<close>

datatype segment = Lit string | Param | CatchAll

definition segment_of :: "string \<Rightarrow> segment" where
  "segment_of s =
     (case s of
        [] \<Rightarrow> Lit []
      | ch # _ \<Rightarrow> if ch = CHR '':'' then Param else if ch = CHR ''*'' then CatchAll else Lit s)"

fun match_segments :: "segment list \<Rightarrow> string list \<Rightarrow> string list option" where
  "match_segments [] [] = Some []"
| "match_segments (Lit l # ps) (x # xs) = (if x = l then match_segments ps xs else None)"
| "match_segments (Param # ps) (x # xs) = (if x = [] then None else map_option (Cons x) (match_segments ps xs))"
| "match_segments [CatchAll] (x # xs) = Some [join_slash (x # xs)]"
| "match_segments _ _ = None"

definition path_match :: "string \<Rightarrow> string \<Rightarrow> string list option" where
  "path_match pattern path =
     (case path_segments pattern of
        None \<Rightarrow> None
      | Some ps \<Rightarrow> Option.bind (path_segments path) (match_segments (map segment_of ps)))"

section \<open>The routes\<close>

datatype endpoint = E_Ping | E_Metrics | E_Order | E_CustomerOrders | E_Files | E_Index

record registration =
  rg_method :: string
  rg_path :: string
  rg_endpoint :: endpoint

text \<open>\<open>Static\<close> and \<open>StaticFile\<close> answer \<open>GET\<close> and \<open>HEAD\<close>.\<close>

definition NewRouter :: "string \<Rightarrow> registration list" where
  "NewRouter staticDir =
     [\<lparr>rg_method = ''GET'', rg_path = ''/ping'', rg_endpoint = E_Ping\<rparr>,
      \<lparr>rg_method = ''GET'', rg_path = ''/metrics'', rg_endpoint = E_Metrics\<rparr>,
      \<lparr>rg_method = ''GET'', rg_path = ''/order/:id'', rg_endpoint = E_Order\<rparr>,
      \<lparr>rg_method = ''GET'', rg_path = ''/customer/:id/orders'', rg_endpoint = E_CustomerOrders\<rparr>] @
     (if staticDir \<noteq> []
      then [\<lparr>rg_method = ''GET'', rg_path = ''/static/*filepath'', rg_endpoint = E_Files\<rparr>,
            \<lparr>rg_method = ''HEAD'', rg_path = ''/static/*filepath'', rg_endpoint = E_Files\<rparr>,
            \<lparr>rg_method = ''GET'', rg_path = ''/'', rg_endpoint = E_Index\<rparr>,
            \<lparr>rg_method = ''HEAD'', rg_path = ''/'', rg_endpoint = E_Index\<rparr>]
      else [])"

text \<open>
  What gin finds: a route with the values of its parameters, no route, only routes of other methods,
  or, where a route has the path but for its last slash, a redirection, which gin answers itself.
\<close>

datatype gin_result = Found endpoint "string list" | NotFound | WrongMethod | Redirected nat

type_synonym gin = "registration list \<Rightarrow> string \<Rightarrow> string \<Rightarrow> gin_result"

definition gin_finds :: "gin \<Rightarrow> bool" where
  "gin_finds gin \<longleftrightarrow>
     (\<forall>rs meth path. case gin rs meth path of
        Found e ps \<Rightarrow>
          (\<exists>r\<in>set rs. rg_method r = meth \<and> rg_endpoint r = e \<and> path_match (rg_path r) path = Some ps)
      | NotFound \<Rightarrow> (\<forall>r\<in>set rs. path_match (rg_path r) path = None)
      | WrongMethod \<Rightarrow>
          (\<forall>r\<in>set rs. rg_method r = meth \<longrightarrow> path_match (rg_path r) path = None) \<and>
          (\<exists>r\<in>set rs. path_match (rg_path r) path \<noteq> None)
      | Redirected code \<Rightarrow> (\<forall>r\<in>set rs. rg_method r = meth \<longrightarrow> path_match (rg_path r) path = None))"

text \<open>The handlers take their parameter by \<open>c.Param\<close>.\<close>

definition first_param :: "string list \<Rightarrow> string" where
  "first_param ps = (case ps of [] \<Rightarrow> [] | p # _ \<Rightarrow> p)"

definition route_of :: "endpoint \<Rightarrow> string list \<Rightarrow> route" where
  "route_of e ps =
     (case e of
        E_Ping \<Rightarrow> R_Ping
      | E_Metrics \<Rightarrow> R_Metrics
      | E_Order \<Rightarrow> R_Order (first_param ps)
      | E_CustomerOrders \<Rightarrow> R_CustomerOrders (first_param ps)
      | E_Files \<Rightarrow> R_Static (first_param ps)
      | E_Index \<Rightarrow> R_Static [])"

definition ServeHTTP ::
    "gin \<Rightarrow> string \<Rightarrow> 's read_port \<Rightarrow> string \<Rightarrow> request \<Rightarrow> 's \<Rightarrow> (response \<times> log_line list) \<times> 's" where
  "ServeHTTP gin staticDir rs uuid rq s =
     (let to = (\<lambda>r. serve rs uuid (rq\<lparr>rq_route := r\<rparr>) s) in
      case gin (NewRouter staticDir) (rq_method rq) (rq_path rq) of
        Found e ps \<Rightarrow> to (route_of e ps)
      | NotFound \<Rightarrow> to R_NoRoute
      | WrongMethod \<Rightarrow> to R_NoMethod
      | Redirected code \<Rightarrow>
          ((\<lparr>rs_status = code, rs_body = Body_Text [], rs_id_header = [], rs_allow = None\<rparr>, []), s))"

section \<open>Where a request goes\<close>

text \<open>The route of a path, and whether it answers \<open>HEAD\<close> as well.\<close>

definition target :: "string \<Rightarrow> string list \<Rightarrow> (route \<times> bool) option" where
  "target staticDir xs =
     (if xs = [''ping''] then Some (R_Ping, False)
      else if xs = [''metrics''] then Some (R_Metrics, False)
      else if length xs = 2 \<and> hd xs = ''order'' \<and> xs ! 1 \<noteq> [] then Some (R_Order (xs ! 1), False)
      else if length xs = 3 \<and> hd xs = ''customer'' \<and> xs ! 1 \<noteq> [] \<and> xs ! 2 = ''orders''
      then Some (R_CustomerOrders (xs ! 1), False)
      else if staticDir \<noteq> [] \<and> xs = [[]] then Some (R_Static [], True)
      else if staticDir \<noteq> [] \<and> 2 \<le> length xs \<and> hd xs = ''static'' then Some (R_Static (join_slash (tl xs)), True)
      else None)"

definition route_for :: "string \<Rightarrow> string \<Rightarrow> string \<Rightarrow> route" where
  "route_for staticDir meth path =
     (case Option.bind (path_segments path) (target staticDir) of
        None \<Rightarrow> R_NoRoute
      | Some (r, head_too) \<Rightarrow> if meth = ''GET'' \<or> head_too \<and> meth = ''HEAD'' then r else R_NoMethod)"

lemma split_slash_nonempty [simp]: "split_slash s \<noteq> []"
  by (induction s) (simp_all split: list.split)

text \<open>The patterns of the table.\<close>

lemma pattern_segments [simp]:
  "path_match ''/ping'' path = Option.bind (path_segments path) (match_segments [Lit ''ping''])"
  "path_match ''/metrics'' path = Option.bind (path_segments path) (match_segments [Lit ''metrics''])"
  "path_match ''/order/:id'' path = Option.bind (path_segments path) (match_segments [Lit ''order'', Param])"
  "path_match ''/customer/:id/orders'' path =
     Option.bind (path_segments path) (match_segments [Lit ''customer'', Param, Lit ''orders''])"
  "path_match ''/static/*filepath'' path = Option.bind (path_segments path) (match_segments [Lit ''static'', CatchAll])"
  "path_match ''/'' path = Option.bind (path_segments path) (match_segments [Lit []])"
  by (simp_all add: path_match_def path_segments_def segment_of_def)

lemma match_pattern:
  "match_segments [Lit l] xs = Some ps \<longleftrightarrow> xs = [l] \<and> ps = []"
  "match_segments [Lit l, Param] xs = Some ps \<longleftrightarrow> (\<exists>x. x \<noteq> [] \<and> xs = [l, x] \<and> ps = [x])"
  "match_segments [Lit l, Param, Lit l'] xs = Some ps \<longleftrightarrow> (\<exists>x. x \<noteq> [] \<and> xs = [l, x, l'] \<and> ps = [x])"
  "match_segments [Lit l, CatchAll] xs = Some ps \<longleftrightarrow> (\<exists>ys. ys \<noteq> [] \<and> xs = l # ys \<and> ps = [join_slash ys])"
proof -
  show "match_segments [Lit l] xs = Some ps \<longleftrightarrow> xs = [l] \<and> ps = []"
    by (cases xs; cases "tl xs") auto
  show "match_segments [Lit l, Param] xs = Some ps \<longleftrightarrow> (\<exists>x. x \<noteq> [] \<and> xs = [l, x] \<and> ps = [x])"
    by (cases xs; cases "tl xs"; cases "tl (tl xs)") auto
  show "match_segments [Lit l, Param, Lit l'] xs = Some ps \<longleftrightarrow> (\<exists>x. x \<noteq> [] \<and> xs = [l, x, l'] \<and> ps = [x])"
    by (cases xs; cases "tl xs"; cases "tl (tl xs)"; cases "tl (tl (tl xs))") auto
  show "match_segments [Lit l, CatchAll] xs = Some ps \<longleftrightarrow> (\<exists>ys. ys \<noteq> [] \<and> xs = l # ys \<and> ps = [join_slash ys])"
    by (cases xs; cases "tl xs") auto
qed

lemma match_rest: "ys \<noteq> [] \<Longrightarrow> match_segments [CatchAll] ys = Some [join_slash ys]"
  by (cases ys) simp_all

text \<open>The targets one by one.\<close>

lemma target_simps:
  "target d [''ping''] = Some (R_Ping, False)"
  "target d [''metrics''] = Some (R_Metrics, False)"
  "x \<noteq> [] \<Longrightarrow> target d [''order'', x] = Some (R_Order x, False)"
  "x \<noteq> [] \<Longrightarrow> target d [''customer'', x, ''orders''] = Some (R_CustomerOrders x, False)"
  "d \<noteq> [] \<Longrightarrow> target d [[]] = Some (R_Static [], True)"
  "d \<noteq> [] \<Longrightarrow> ys \<noteq> [] \<Longrightarrow> target d (''static'' # ys) = Some (R_Static (join_slash ys), True)"
  by (simp_all add: target_def Suc_le_eq)

lemma target_cases:
  assumes "target d xs = Some (rt, head_too)"
  obtains (ping) "xs = [''ping'']" "rt = R_Ping" "\<not> head_too"
  | (metrics) "xs = [''metrics'']" "rt = R_Metrics" "\<not> head_too"
  | (order) x where "x \<noteq> []" "xs = [''order'', x]" "rt = R_Order x" "\<not> head_too"
  | (orders) x where "x \<noteq> []" "xs = [''customer'', x, ''orders'']" "rt = R_CustomerOrders x" "\<not> head_too"
  | (index) "d \<noteq> []" "xs = [[]]" "rt = R_Static []" "head_too"
  | (files) ys where "d \<noteq> []" "ys \<noteq> []" "xs = ''static'' # ys" "rt = R_Static (join_slash ys)" "head_too"
proof -
  have 2: "length xs = 2 \<and> hd xs = l \<Longrightarrow> xs = [l, xs ! 1]" for l
    by (cases xs; cases "tl xs") auto
  have 3: "length xs = 3 \<and> hd xs = l \<Longrightarrow> xs = [l, xs ! 1, xs ! 2]" for l
    by (cases xs; cases "tl xs"; cases "tl (tl xs)") auto
  have many: "2 \<le> length xs \<and> hd xs = l \<Longrightarrow> xs = l # tl xs \<and> tl xs \<noteq> []" for l
    by (cases xs; cases "tl xs") auto
  have "xs = [''ping''] \<and> rt = R_Ping \<and> \<not> head_too \<or> xs = [''metrics''] \<and> rt = R_Metrics \<and> \<not> head_too \<or>
      (length xs = 2 \<and> hd xs = ''order'') \<and> xs ! 1 \<noteq> [] \<and> rt = R_Order (xs ! 1) \<and> \<not> head_too \<or>
      (length xs = 3 \<and> hd xs = ''customer'') \<and> xs ! 1 \<noteq> [] \<and> xs ! 2 = ''orders'' \<and> rt = R_CustomerOrders (xs ! 1) \<and> \<not> head_too \<or>
      d \<noteq> [] \<and> xs = [[]] \<and> rt = R_Static [] \<and> head_too \<or>
      d \<noteq> [] \<and> (2 \<le> length xs \<and> hd xs = ''static'') \<and> rt = R_Static (join_slash (tl xs)) \<and> head_too"
    using assms unfolding target_def by (simp only: split: if_splits) simp_all
  then show thesis
  proof (elim disjE conjE)
    assume "length xs = 2" "hd xs = ''order''" "xs ! 1 \<noteq> []" "rt = R_Order (xs ! 1)" "\<not> head_too"
    then show thesis using 2 by (intro order [of "xs ! 1"]) simp_all
  next
    assume "length xs = 3" "hd xs = ''customer''" "xs ! 1 \<noteq> []" "xs ! 2 = ''orders''" "rt = R_CustomerOrders (xs ! 1)" "\<not> head_too"
    then show thesis using 3 [of "''customer''"] by (intro orders [of "xs ! 1"]) simp_all
  next
    assume "d \<noteq> []" "2 \<le> length xs" "hd xs = ''static''" "rt = R_Static (join_slash (tl xs))" "head_too"
    then show thesis using many [of "''static''"] by (intro files [of "tl xs"]) simp_all
  qed (fact ping metrics index)+
qed

text \<open>Whatever is registered for a path has it as its target, and the other way round.\<close>

lemma registered_target:
  assumes "r \<in> set (NewRouter d)" and "path_match (rg_path r) path = Some ps"
  shows "\<exists>head_too. Option.bind (path_segments path) (target d) = Some (route_of (rg_endpoint r) ps, head_too) \<and>
    (rg_method r = ''GET'' \<or> head_too \<and> rg_method r = ''HEAD'')"
  using assms
  by (auto simp: NewRouter_def bind_eq_Some_conv match_pattern target_simps route_of_def first_param_def ex_bool_eq split: if_splits)

lemma target_registered:
  assumes "Option.bind (path_segments path) (target d) = Some (rt, head_too)"
    and "meth = ''GET'' \<or> head_too \<and> meth = ''HEAD''"
  shows "\<exists>r\<in>set (NewRouter d). rg_method r = meth \<and> path_match (rg_path r) path \<noteq> None"
proof -
  obtain xs where xs: "path_segments path = Some xs" and t: "target d xs = Some (rt, head_too)"
    using assms(1) by (auto simp: bind_eq_Some_conv)
  from t show ?thesis
    by (cases rule: target_cases) (use assms(2) in \<open>auto simp: NewRouter_def xs match_rest\<close>)
qed

lemma requests_dispatched:
  assumes "gin_finds gin"
  shows "ServeHTTP gin staticDir rs uuid rq s = serve rs uuid (rq\<lparr>rq_route := route_for staticDir (rq_method rq) (rq_path rq)\<rparr>) s \<or>
    (\<exists>code. gin (NewRouter staticDir) (rq_method rq) (rq_path rq) = Redirected code \<and>
      route_for staticDir (rq_method rq) (rq_path rq) \<in> {R_NoRoute, R_NoMethod})"
proof -
  let ?m = "rq_method rq" and ?p = "rq_path rq" and ?t = "Option.bind (path_segments (rq_path rq)) (target staticDir)"
  note spec = assms [unfolded gin_finds_def, rule_format, of "NewRouter staticDir" ?m ?p]
  have none: "route_for staticDir ?m ?p \<in> {R_NoRoute, R_NoMethod}"
    if "\<forall>r\<in>set (NewRouter staticDir). rg_method r = ?m \<longrightarrow> path_match (rg_path r) ?p = None"
    using target_registered [of ?p staticDir _ _ ?m] that
    by (fastforce simp: route_for_def split: option.splits if_splits)
  show "ServeHTTP gin staticDir rs uuid rq s = serve rs uuid (rq\<lparr>rq_route := route_for staticDir ?m ?p\<rparr>) s \<or>
      (\<exists>code. gin (NewRouter staticDir) ?m ?p = Redirected code \<and> route_for staticDir ?m ?p \<in> {R_NoRoute, R_NoMethod})"
  proof (cases "gin (NewRouter staticDir) ?m ?p")
    case (Found e ps)
    then obtain r where r: "r \<in> set (NewRouter staticDir)" "rg_method r = ?m" "rg_endpoint r = e" "path_match (rg_path r) ?p = Some ps"
      using spec by auto
    then have "route_for staticDir ?m ?p = route_of e ps"
      using registered_target [OF r(1,4)] by (auto simp: route_for_def)
    then show ?thesis using Found by (simp add: ServeHTTP_def)
  next
    case NotFound
    then have "\<forall>r\<in>set (NewRouter staticDir). path_match (rg_path r) ?p = None" using spec by simp
    then have "?t = None" using target_registered [of ?p staticDir _ _ "''GET''"] by (cases ?t) auto
    then have "route_for staticDir ?m ?p = R_NoRoute" by (simp add: route_for_def)
    then show ?thesis using NotFound by (simp add: ServeHTTP_def)
  next
    case WrongMethod
    then obtain r where r: "r \<in> set (NewRouter staticDir)" "path_match (rg_path r) ?p \<noteq> None"
      and no: "\<forall>r\<in>set (NewRouter staticDir). rg_method r = ?m \<longrightarrow> path_match (rg_path r) ?p = None"
      using spec by auto
    then obtain ps where "path_match (rg_path r) ?p = Some ps" by blast
    from registered_target [OF r(1) this] have "?t \<noteq> None" by auto
    then have "route_for staticDir ?m ?p = R_NoMethod"
      using target_registered [of ?p staticDir _ _ ?m] no by (auto simp: route_for_def)
    then show ?thesis using WrongMethod by (simp add: ServeHTTP_def)
  next
    case (Redirected code)
    then show ?thesis using none spec by simp
  qed
qed


text \<open>A gin that goes through the table.\<close>

definition table_gin :: gin where
  "table_gin rs meth path =
     (case filter (\<lambda>r. path_match (rg_path r) path \<noteq> None) rs of
        [] \<Rightarrow> NotFound
      | r # rest \<Rightarrow>
          (case filter (\<lambda>r. rg_method r = meth) (r # rest) of
             [] \<Rightarrow> WrongMethod
           | r # _ \<Rightarrow> Found (rg_endpoint r) (the (path_match (rg_path r) path))))"

lemma table_gin_finds: "gin_finds table_gin"
  unfolding gin_finds_def
proof (intro allI)
  fix rs :: "registration list" and meth path
  let ?fits = "filter (\<lambda>r. path_match (rg_path r) path \<noteq> None) rs"
  show "case table_gin rs meth path of
        Found e ps \<Rightarrow>
          (\<exists>r\<in>set rs. rg_method r = meth \<and> rg_endpoint r = e \<and> path_match (rg_path r) path = Some ps)
      | NotFound \<Rightarrow> (\<forall>r\<in>set rs. path_match (rg_path r) path = None)
      | WrongMethod \<Rightarrow>
          (\<forall>r\<in>set rs. rg_method r = meth \<longrightarrow> path_match (rg_path r) path = None) \<and>
          (\<exists>r\<in>set rs. path_match (rg_path r) path \<noteq> None)
      | Redirected code \<Rightarrow> (\<forall>r\<in>set rs. rg_method r = meth \<longrightarrow> path_match (rg_path r) path = None)"
  proof (cases ?fits)
    case Nil
    then show ?thesis by (simp add: table_gin_def filter_empty_conv)
  next
    case (Cons r rest)
    then have all: "set (r # rest) = {r \<in> set rs. path_match (rg_path r) path \<noteq> None}" by (metis set_filter)
    show ?thesis
    proof (cases "filter (\<lambda>r. rg_method r = meth) (r # rest)")
      case Nil
      then have "\<forall>q\<in>set (r # rest). rg_method q \<noteq> meth" unfolding filter_empty_conv .
      moreover have "r \<in> set (r # rest)" by simp
      ultimately show ?thesis using Nil \<open>?fits = _\<close> unfolding all by (auto simp: table_gin_def)
    next
      case (Cons q qs)
      then have "q \<in> set (filter (\<lambda>r. rg_method r = meth) (r # rest))" by simp
      then have "q \<in> set rs" "rg_method q = meth" "path_match (rg_path q) path \<noteq> None"
        unfolding set_filter all by simp_all
      then show ?thesis using Cons \<open>?fits = _\<close> by (auto simp: table_gin_def)
    qed
  qed
qed

text \<open>A \<open>POST\<close> to the path of an order, and a file below the static directory.\<close>

definition request_to :: "string \<Rightarrow> string \<Rightarrow> request" where
  "request_to meth path = (sample_request R_NoRoute)\<lparr>rq_method := meth, rq_path := path\<rparr>"


section \<open>The two routes of the service\<close>

lemma split_slash_plain [simp]:
  "CHR ''/'' \<notin> set u \<Longrightarrow> split_slash u = [u]"
  "CHR ''/'' \<notin> set u \<Longrightarrow> split_slash (u @ CHR ''/'' # s) = u # split_slash s"
  by (induction u) auto

lemma route_for_order:
  assumes "uid \<noteq> []" and "CHR ''/'' \<notin> set uid"
  shows "route_for d ''GET'' (''/order/'' @ uid) = R_Order uid"
  using split_slash_plain(2) [of "''order''" uid] assms
  by (simp add: route_for_def path_segments_def target_simps del: split_slash.simps)

lemma route_for_customer:
  assumes "cust \<noteq> []" and "CHR ''/'' \<notin> set cust"
  shows "route_for d ''GET'' (''/customer/'' @ cust @ ''/orders'') = R_CustomerOrders cust"
  using split_slash_plain(2) [of "''customer''" "cust @ ''/orders''"] split_slash_plain(2) [of cust "''orders''"]
    split_slash_plain(1) [of "''orders''"] assms
  by (simp add: route_for_def path_segments_def target_simps del: split_slash.simps)

lemma routed:
  assumes "gin_finds gin" and "rq_method rq = ''GET''" and "route_for d ''GET'' (rq_path rq) = rt" and "rt \<notin> {R_NoRoute, R_NoMethod}"
  shows "ServeHTTP gin d rs uuid rq s = serve rs uuid (rq\<lparr>rq_route := rt\<rparr>) s"
  using requests_dispatched [OF assms(1), of d rs uuid rq s] assms(2-4) by auto





end
