(* ===== verification/Factory.thy ===== *)
theory Factory
  imports Validate_Props Repo_Types
begin

text \<open>
  The generator of valid orders for the tests: \<open>internal/testutil/factory_orders_any.go\<close> (and, with
  the same text, \<open>factory_orders_integration.go\<close>).  The random source of \<open>crypto/rand\<close> and the clock
  are arguments; an option is a function on the order that may draw more random bytes, and \<open>None\<close>
  is a panic of \<open>make\<close>.  Memory is taken as unbounded.
\<close>

section \<open>Suffixes\<close>

text \<open>\<open>rand.Read\<close> fills a slice of the given length; \<open>hex.EncodeToString\<close> prints two digits per byte.\<close>

type_synonym 'w rand_source = "nat \<Rightarrow> 'w \<Rightarrow> string \<times> 'w"

definition hex_digit :: "nat \<Rightarrow> char" where
  "hex_digit d = (if d < 10 then char_of (48 + d) else char_of (87 + d))"

definition hex_encode :: "string \<Rightarrow> string" where
  "hex_encode b = concat (map (\<lambda>c. [hex_digit (of_char c div 16), hex_digit (of_char c mod 16)]) b)"

definition randHex :: "'w rand_source \<Rightarrow> nat \<Rightarrow> 'w \<Rightarrow> string \<times> 'w" where
  "randHex rnd n w = (case rnd n w of (b, w1) \<Rightarrow> (hex_encode b, w1))"

definition UniqSuffix :: "'w rand_source \<Rightarrow> 'w \<Rightarrow> string \<times> 'w" where
  "UniqSuffix rnd w = randHex rnd 6 w"

section \<open>Orders\<close>

text \<open>\<open>Truncate(time.Second)\<close>, and \<open>Unix\<close>: the seconds since January 1, 1970.\<close>

definition truncate_second :: "instant \<Rightarrow> instant" where
  "truncate_second t = t - t mod 10 ^ 9"

definition unix :: "instant \<Rightarrow> 64 word" where
  "unix t = word_of_int (t div 10 ^ 9 - 62135596800)"

type_synonym 'w order_opt = "order \<Rightarrow> 'w \<Rightarrow> (order \<times> 'w) option"

fun apply_opts :: "'w order_opt list \<Rightarrow> order \<Rightarrow> 'w \<Rightarrow> (order \<times> 'w) option" where
  "apply_opts [] ord w = Some (ord, w)"
| "apply_opts (opt # opts) ord w =
     (case opt ord w of
        None \<Rightarrow> None
      | Some (ord1, w1) \<Rightarrow> apply_opts opts ord1 w1)"

definition made_delivery :: delivery where
  "made_delivery =
     \<lparr>dName = ''John Smith'', dPhone = ''+1-202-555-01'', dZip = ''000000'', dCity = ''Metropolis'',
      dAddress = ''Main st 1'', dRegion = ''NA'', dEmail = ''john@example.com''\<rparr>"

definition made_payment :: "string \<Rightarrow> instant \<Rightarrow> payment" where
  "made_payment uid now =
     \<lparr>pTransaction = uid, pRequestID = [], pCurrency = ''USD'', pProvider = ''test'', pAmount = 123,
      pPaymentDT = unix now, pBank = ''TC-BANK'', pDeliveryCost = 10, pGoodsTotal = 113, pCustomFee = 0\<rparr>"

definition made_item :: "string \<Rightarrow> item" where
  "made_item sfx =
     \<lparr>iChrtID = 1001, iTrackNumber = ''TR-'' @ sfx, iPrice = 100, iRID = ''RID-1'', iName = ''Widget'',
      iSale = 0, iSize = ''M'', iTotalPrice = 100, iNmID = 1, iBrand = ''brand'', iStatus = 200\<rparr>"

text \<open>The fields that the literal leaves out are zero.\<close>

definition MakeOrder :: "'w rand_source \<Rightarrow> instant \<Rightarrow> 'w order_opt list \<Rightarrow> 'w \<Rightarrow> (order \<times> 'w) option" where
  "MakeOrder rnd clock opts w =
     (let (s1, w) = UniqSuffix rnd w;
          uid = ''ord-'' @ s1;
          now = truncate_second clock;
          (s2, w) = UniqSuffix rnd w;
          (s3, w) = UniqSuffix rnd w;
          (s4, w) = UniqSuffix rnd w;
          o' = zero_order\<lparr>OrderUID := uid, TrackNumber := ''TR-'' @ s2, CustomerID := ''cust-'' @ s3,
                 DateCreated := now, Entry := ''WBIL'', Delivery := made_delivery,
                 Payment := made_payment uid now, Items := Some [made_item s4]\<rparr>
      in apply_opts opts o' w)"

section \<open>Options\<close>

definition WithEntry :: "string \<Rightarrow> 'w order_opt" where
  "WithEntry entry' = (\<lambda>ord w. Some (ord\<lparr>Entry := entry'\<rparr>, w))"

definition WithCustomer :: "string \<Rightarrow> 'w order_opt" where
  "WithCustomer cust = (\<lambda>ord w. Some (ord\<lparr>CustomerID := cust\<rparr>, w))"

definition WithOrderUID :: "string \<Rightarrow> 'w order_opt" where
  "WithOrderUID uid = (\<lambda>ord w.
     Some (ord\<lparr>OrderUID := uid, Payment := (Payment ord)\<lparr>pTransaction := uid\<rparr>\<rparr>, w))"

definition numbered_item :: "goint \<Rightarrow> string \<Rightarrow> string \<Rightarrow> item" where
  "numbered_item i s1 s2 =
     \<lparr>iChrtID = 1000 + i, iTrackNumber = ''TR-'' @ s1, iPrice = 10 * (i + 1), iRID = ''RID-'' @ s2,
      iName = ''Item'', iSale = 0, iSize = ''M'', iTotalPrice = 10 * (i + 1), iNmID = i + 1,
      iBrand = ''brand'', iStatus = 200\<rparr>"

lemma sint_succ_less: "sint i < sint (n :: goint) \<Longrightarrow> sint (i + 1 :: goint) = sint i + 1"
  using sint_range64 [of n] sint_range64 [of i] by (subst sint_add_small) simp_all

function items_loop :: "'w rand_source \<Rightarrow> goint \<Rightarrow> goint \<Rightarrow> item list \<Rightarrow> 'w \<Rightarrow> item list \<times> 'w" where
  "items_loop rnd n i its w =
     (if sint i < sint n
      then (case UniqSuffix rnd w of
              (s1, w1) \<Rightarrow>
                (case UniqSuffix rnd w1 of
                   (s2, w2) \<Rightarrow> items_loop rnd n (i + 1) (its @ [numbered_item i s1 s2]) w2))
      else (its, w))"
  by pat_completeness auto
termination
  by (relation "measure (\<lambda>(rnd, n, i, its, w). nat (sint n - sint i))") (simp_all add: sint_succ_less)

declare items_loop.simps [simp del]

definition WithItems :: "'w rand_source \<Rightarrow> goint \<Rightarrow> 'w order_opt" where
  "WithItems rnd n = (\<lambda>ord w.
     if sint n < 0 then None
     else case items_loop rnd n 0 [] w of (its, w1) \<Rightarrow> Some (ord\<lparr>Items := Some its\<rparr>, w1))"

section \<open>Hexadecimal suffixes\<close>

definition printable :: "string \<Rightarrow> bool" where
  "printable s \<longleftrightarrow> list_all (\<lambda>c. 32 \<le> (of_char c :: nat) \<and> (of_char c :: nat) < 127) s"

lemma printable_simps [simp]:
  "printable []" "printable (c # s) \<longleftrightarrow> 32 \<le> (of_char c :: nat) \<and> (of_char c :: nat) < 127 \<and> printable s"
  "printable (s @ t) \<longleftrightarrow> printable s \<and> printable t"
  by (auto simp: printable_def)

lemma of_hex_digit: "d < 16 \<Longrightarrow> of_char (hex_digit d) = (if d < 10 then 48 + d else 87 + d)"
  by (simp add: hex_digit_def)

lemma hex_digit_inject: "d < 16 \<Longrightarrow> e < 16 \<Longrightarrow> hex_digit d = hex_digit e \<longleftrightarrow> d = e"
proof
  assume d: "d < 16" "e < 16" and eq: "hex_digit d = hex_digit e"
  then have "(of_char (hex_digit d) :: nat) = of_char (hex_digit e)" by simp
  then show "d = e" using d by (simp only: of_hex_digit) (simp split: if_splits)
qed simp

lemma nibbles: "of_char c div 16 < (16 :: nat)" "of_char c mod 16 < (16 :: nat)"
  using less_mult_imp_div_less [of "of_char c" 16 16] nat_of_char_less_256 [of c] by simp_all

lemma printable_hex [simp]: "printable (hex_encode b)"
proof (induction b)
  case (Cons c b)
  have "32 \<le> (of_char (hex_digit d) :: nat) \<and> (of_char (hex_digit d) :: nat) < 127" if "d < 16" for d
    using that by (simp add: of_hex_digit)
  with nibbles [of c] Cons show ?case by (simp add: hex_encode_def)
qed (simp add: hex_encode_def)

lemma length_hex [simp]: "length (hex_encode b) = 2 * length b"
  by (induction b) (simp_all add: hex_encode_def)

lemma hex_encode_inject [simp]: "hex_encode a = hex_encode b \<longleftrightarrow> a = b"
proof
  show "hex_encode a = hex_encode b \<Longrightarrow> a = b"
  proof (induction a arbitrary: b)
    case Nil
    then show ?case by (cases b) (simp_all add: hex_encode_def)
  next
    case (Cons x a)
    then obtain y b' where b: "b = y # b'" by (cases b) (auto simp: hex_encode_def)
    have "of_char x div 16 = (of_char y div 16 :: nat)" "of_char x mod 16 = (of_char y mod 16 :: nat)"
      using Cons.prems nibbles by (simp_all add: b hex_encode_def hex_digit_inject)
    then have "(of_char x :: nat) = of_char y" by (metis div_mult_mod_eq)
    moreover have "a = b'" using Cons by (simp add: b hex_encode_def)
    ultimately show ?case by (simp add: b)
  qed
qed simp

lemma UniqSuffix_printable: "UniqSuffix rnd w = (s, w1) \<Longrightarrow> printable s"
  by (auto simp: UniqSuffix_def randHex_def split: prod.splits)

section \<open>Generated orders are valid\<close>

text \<open>The options as the tests combine them, with arguments that leave the order valid.\<close>

datatype made_opt = Opt_Entry string | Opt_Customer string | Opt_OrderUID string | Opt_Items goint

fun opt_fun :: "'w rand_source \<Rightarrow> made_opt \<Rightarrow> 'w order_opt" where
  "opt_fun rnd (Opt_Entry s) = WithEntry s"
| "opt_fun rnd (Opt_Customer s) = WithCustomer s"
| "opt_fun rnd (Opt_OrderUID s) = WithOrderUID s"
| "opt_fun rnd (Opt_Items n) = WithItems rnd n"

fun opt_ok :: "made_opt \<Rightarrow> bool" where
  "opt_ok (Opt_Entry s) \<longleftrightarrow> s \<noteq> [] \<and> printable s"
| "opt_ok (Opt_Customer s) \<longleftrightarrow> s \<noteq> [] \<and> printable s"
| "opt_ok (Opt_OrderUID s) \<longleftrightarrow> s \<noteq> [] \<and> printable s"
| "opt_ok (Opt_Items n) \<longleftrightarrow> 0 < sint n \<and> sint n \<le> 214748364"

definition good_item :: "pg_env \<Rightarrow> item \<Rightarrow> bool" where
  "good_item env it \<longleftrightarrow> valid_item it \<and> item_texts_ok env it \<and> item_ranges_ok it \<and> item_checks_ok it"

definition good_order :: "(string \<Rightarrow> bool) \<Rightarrow> pg_env \<Rightarrow> order \<Rightarrow> bool" where
  "good_order parse_ok env ord \<longleftrightarrow>
     valid_header parse_ok ord \<and> well_typed env (ord\<lparr>Items := None\<rparr>) \<and>
     item_list ord \<noteq> [] \<and> list_all (good_item env) (item_list ord)"

lemma good_orderD:
  assumes "good_order parse_ok env ord"
  shows "Validate parse_ok (Some ord) = None" and "well_typed env ord"
  using assms
  by (auto simp: good_order_def Validate_iff valid_order_def good_item_def well_typed_def texts_ok_def
      ranges_ok_def list_all_iff)

text \<open>The server takes printable ASCII.\<close>

definition takes_printable :: "pg_env \<Rightarrow> bool" where
  "takes_printable env \<longleftrightarrow> (\<forall>s. printable s \<longrightarrow> text_ok env s)"

lemma numbered_item_good:
  assumes env: "takes_printable env" and "0 \<le> sint i" and "sint i < 214748364" and "printable s1" and "printable s2"
  shows "good_item env (numbered_item i s1 s2)"
proof -
  define k where "k = sint i"
  have i: "i = word_of_int k" by (simp add: k_def)
  have "1000 + i = word_of_int (1000 + k)" "i + 1 = word_of_int (k + 1)" "10 * (i + 1) = word_of_int (10 * (k + 1))"
    by (simp_all add: i)
  then have "sint (1000 + i) = 1000 + k" "sint (i + 1) = k + 1" "sint (10 * (i + 1)) = 10 * (k + 1)"
    using assms(2,3) by (simp_all only: k_def [symmetric]) (subst sint_of_int_small; simp)+
  then show ?thesis
    using assms by (simp add: good_item_def valid_item_def item_texts_ok_def item_ranges_ok_def item_checks_ok_def
        int4_ok_def numbered_item_def takes_printable_def k_def)
qed

lemma items_loop_good:
  assumes env: "takes_printable env" and "sint n \<le> 214748364"
    and "0 \<le> sint i" and "list_all (good_item env) its" and "items_loop rnd n i its w = (its', w1)"
  shows "list_all (good_item env) its' \<and> length its' = length its + nat (sint n - sint i)"
  using assms(2-5)
proof (induction rnd n i its w rule: items_loop.induct)
  case (1 rnd n i its w)
  show ?case
  proof (cases "sint i < sint n")
    case False
    then show ?thesis using "1.prems" by (simp add: items_loop.simps [of rnd n i])
  next
    case True
    obtain s1 w1' where s1: "UniqSuffix rnd w = (s1, w1')" by (cases "UniqSuffix rnd w")
    obtain s2 w2 where s2: "UniqSuffix rnd w1' = (s2, w2)" by (cases "UniqSuffix rnd w1'")
    have "good_item env (numbered_item i s1 s2)"
      using numbered_item_good [OF env "1.prems"(2)] True "1.prems"(1) UniqSuffix_printable [OF s1] UniqSuffix_printable [OF s2]
      by simp
    then show ?thesis
      using "1.IH" [OF True s1 [symmetric] s2 [symmetric]] "1.prems" True s1 s2 sint_succ_less [OF True]
      by (simp add: items_loop.simps [of rnd n i])
  qed
qed

lemma opt_good:
  assumes env: "takes_printable env" and "opt_ok opt" and "good_order parse_ok env ord"
  shows "\<exists>ord1 w1. opt_fun rnd opt ord w = Some (ord1, w1) \<and> good_order parse_ok env ord1"
proof (cases opt)
  case (Opt_Items n)
  obtain its w1 where loop: "items_loop rnd n 0 [] w = (its, w1)" by (cases "items_loop rnd n 0 [] w")
  have "list_all (good_item env) its" "length its = nat (sint n)"
    using items_loop_good [OF env _ _ _ loop] assms(2) by (simp_all add: Opt_Items)
  moreover from this assms(2) have "its \<noteq> []" by (auto simp: Opt_Items)
  ultimately show ?thesis
    using assms(2,3) loop by (simp add: Opt_Items WithItems_def good_order_def valid_header_def)
qed (use assms in \<open>auto simp: WithEntry_def WithCustomer_def WithOrderUID_def good_order_def valid_header_def
    well_typed_def texts_ok_def ranges_ok_def takes_printable_def Let_def\<close>)

lemma opts_good:
  assumes "takes_printable env" and "list_all opt_ok opts" and "good_order parse_ok env ord"
  shows "\<exists>ord1 w1. apply_opts (map (opt_fun rnd) opts) ord w = Some (ord1, w1) \<and> good_order parse_ok env ord1"
  using assms(2,3)
proof (induction opts arbitrary: ord w)
  case (Cons opt opts)
  obtain ord1 w1 where "opt_fun rnd opt ord w = Some (ord1, w1)" "good_order parse_ok env ord1"
    using opt_good [OF assms(1)] Cons.prems by fastforce
  then show ?case using Cons by simp
qed simp

lemma unix_nonneg:
  assumes "year_2000 \<le> t" and "t < 2 ^ 63 * 10 ^ 9"
  shows "0 \<le> sint (unix t)"
proof -
  have "62135596800 \<le> t div 10 ^ 9" "t div 10 ^ 9 < 2 ^ 63"
    using assms by (simp_all add: year_2000_def)
  then show ?thesis unfolding unix_def by (subst sint_of_int_small) simp_all
qed

lemma truncate_second_bounds: "truncate_second t \<le> t" "year_2000 \<le> t \<Longrightarrow> year_2000 \<le> truncate_second t"
proof -
  have eq: "truncate_second t = (t div 10 ^ 9) * 10 ^ 9" by (simp add: truncate_second_def minus_mod_eq_div_mult)
  show "truncate_second t \<le> t" by (simp add: truncate_second_def)
  show "year_2000 \<le> truncate_second t" if "year_2000 \<le> t"
  proof -
    have "730119 * 86400 \<le> t div 10 ^ 9" using that by (simp add: year_2000_def)
    then show ?thesis by (simp add: eq year_2000_def)
  qed
qed

text \<open>C34: generated orders are valid and savable: with any options in any order whose texts are printable
  and not empty and whose number of items is from 1 to 214748364, \<open>MakeOrder\<close> does not panic, the
  validator accepts the order, and it satisfies every condition of the schema.\<close>
theorem made_orders_are_valid:
  assumes "takes_printable env" and "parse_ok ''john@example.com''"
    and "year_2000 \<le> clock" and "clock < 2 ^ 63 * 10 ^ 9"
    and "list_all opt_ok opts"
  shows "\<exists>ord w1. MakeOrder rnd clock (map (opt_fun rnd) opts) w = Some (ord, w1) \<and>
    Validate parse_ok (Some ord) = None \<and> well_typed env ord"
proof -
  obtain s1 w1 s2 w2 s3 w3 s4 w4 where suffixes:
    "UniqSuffix rnd w = (s1, w1)" "UniqSuffix rnd w1 = (s2, w2)" "UniqSuffix rnd w2 = (s3, w3)" "UniqSuffix rnd w3 = (s4, w4)"
    by (metis prod.exhaust)
  let ?now = "truncate_second clock"
  let ?ord = "zero_order\<lparr>OrderUID := ''ord-'' @ s1, TrackNumber := ''TR-'' @ s2, CustomerID := ''cust-'' @ s3,
      DateCreated := ?now, Entry := ''WBIL'', Delivery := made_delivery, Payment := made_payment (''ord-'' @ s1) ?now,
      Items := Some [made_item s4]\<rparr>"
  have now: "year_2000 \<le> ?now" "0 \<le> sint (unix ?now)"
    using truncate_second_bounds [of clock] assms(3,4) by (simp_all add: unix_nonneg)
  have "good_order parse_ok env ?ord"
    using suffixes [THEN UniqSuffix_printable] assms(1,2) now
    by (simp add: good_order_def valid_header_def good_item_def valid_item_def well_typed_def texts_ok_def
        ranges_ok_def item_texts_ok_def item_ranges_ok_def item_checks_ok_def int4_ok_def nonneg_int4_def
        made_payment_def made_delivery_def made_item_def takes_printable_def zero_order_def Let_def)
  from opts_good [OF assms(1,5) this, of rnd w4]
  obtain ord1 w5 where "apply_opts (map (opt_fun rnd) opts) ?ord w4 = Some (ord1, w5)" "good_order parse_ok env ord1"
    by blast
  then show ?thesis using good_orderD [of parse_ok env ord1] by (simp add: MakeOrder_def suffixes Let_def)
qed

definition counting_source :: "nat rand_source" where
  "counting_source n w = (replicate n (char_of w), Suc w)"

lemma made_orders_are_valid_witness:
  "\<exists>ord w1. MakeOrder counting_source (year_2000 + 1) (map (opt_fun counting_source) [Opt_Items 2, Opt_OrderUID ''x'']) 0 = Some (ord, w1) \<and>
     Validate (\<lambda>s. s \<noteq> []) (Some ord) = None \<and> well_typed healthy ord"
proof -
  have "CHR 0x00 \<notin> set s" if "printable s" for s
    using that by (auto simp: printable_def list_all_iff)
  then have "takes_printable healthy" by (simp add: takes_printable_def healthy_def)
  then show ?thesis by (intro made_orders_are_valid) (simp_all add: year_2000_def)
qed

end
