(* ===== verification/Test_Env.thy ===== *)
theory Test_Env
  imports App
begin

text \<open>
  The environment of the integration tests (\<open>internal/testutil\<close>): topics (\<open>kafka.go\<close>), containers
  (\<open>containers_tc_integration.go\<close>) and migrations (\<open>migrations_goose_integration.go\<close>).  The Kafka
  connections, testcontainers, pgx and goose are arguments; every function returns, beside its
  result, the resources it opened and closed, in order.
\<close>

section \<open>Resources\<close>

datatype test_resource = Conn string | Container string | Test_Pool | Database

datatype test_action =
    Opened test_resource
  | Released test_resource
  | Dial_failed string

text \<open>The resources open after the actions; \<open>None\<close> when one was released that was not open.\<close>

fun held_after :: "test_resource list \<Rightarrow> test_action list \<Rightarrow> test_resource list option" where
  "held_after held [] = Some held"
| "held_after held (Opened r # as) = held_after (r # held) as"
| "held_after held (Released r # as) = (if r \<in> set held then held_after (remove1 r held) as else None)"
| "held_after held (Dial_failed addr # as) = held_after held as"

section \<open>Topics\<close>

record 'w kafka_admin =
  ka_url_Host :: "string \<Rightarrow> string option"
  ka_Dial :: "string \<Rightarrow> 'w \<Rightarrow> goerror option \<times> 'w"
  ka_Controller :: "'w \<Rightarrow> (goerror + string \<times> goint) \<times> 'w"
  ka_CreateTopics :: "string \<Rightarrow> 'w \<Rightarrow> goerror option \<times> 'w"
  ka_ReadPartitions :: "string \<Rightarrow> 'w \<Rightarrow> (goerror + nat) \<times> 'w"
  ka_Error :: "goerror \<Rightarrow> string"
  ka_Now :: "'w \<Rightarrow> instant"
  ka_ctx_Err :: "'w \<Rightarrow> goerror option"
  ka_Sleep :: "duration \<Rightarrow> 'w \<Rightarrow> 'w"

fun contains_text :: "string \<Rightarrow> string \<Rightarrow> bool" where
  "contains_text w [] = (w = [])"
| "contains_text w (c # s) = (starts_with w (c # s) \<or> contains_text w s)"

text \<open>\<open>ka_url_Host\<close> is the host that \<open>url.Parse\<close> finds, when it succeeds.\<close>

definition firstBootstrap :: "'w kafka_admin \<Rightarrow> string \<Rightarrow> string" where
  "firstBootstrap env raw =
     (let first = trim_space (takeWhile (\<lambda>c. c \<noteq> CHR '','') raw)
      in if contains_text ''://'' first
         then (case ka_url_Host env first of
                 Some host \<Rightarrow> if host \<noteq> [] then host else first
               | None \<Rightarrow> first)
         else first)"

type_synonym 'w admin_state = "'w \<times> test_action list"

definition kafka_dial :: "'w kafka_admin \<Rightarrow> string \<Rightarrow> 'w admin_state \<Rightarrow> goerror option \<times> 'w admin_state" where
  "kafka_dial env addr = (\<lambda>(w, as).
     case ka_Dial env addr w of
       (Some err, w1) \<Rightarrow> (Some err, (w1, as @ [Dial_failed addr]))
     | (None, w1) \<Rightarrow> (None, (w1, as @ [Opened (Conn addr)])))"

definition conn_close :: "string \<Rightarrow> 'w admin_state \<Rightarrow> 'w admin_state" where
  "conn_close addr = (\<lambda>(w, as). (w, as @ [Released (Conn addr)]))"

text \<open>
  One iteration of the loop of \<open>waitTopicReady\<close>: \<open>Inr\<close> what it returns, or \<open>Inl\<close> the state after the
  sleep.  \<open>wait_again\<close> is what follows an attempt that found no partition.
\<close>

definition wait_again ::
    "'w kafka_admin \<Rightarrow> instant \<Rightarrow> goerror option \<Rightarrow> 'w admin_state \<Rightarrow> 'w admin_state + goerror option \<times> 'w admin_state" where
  "wait_again env deadline err = (\<lambda>(w, as).
     if deadline < ka_Now env w
     then Inr (Some (case err of Some e \<Rightarrow> Wrapf ''topic not ready'' e | None \<Rightarrow> Errorf ''topic not ready''), (w, as))
     else Inl (ka_Sleep env (200 * millisecond) w, as))"

definition wait_iter ::
    "'w kafka_admin \<Rightarrow> string \<Rightarrow> string \<Rightarrow> instant \<Rightarrow> 'w admin_state \<Rightarrow> 'w admin_state + goerror option \<times> 'w admin_state" where
  "wait_iter env broker topic deadline s =
     (case ka_ctx_Err env (fst s) of
        Some err \<Rightarrow> Inr (Some err, s)
      | None \<Rightarrow>
          (case kafka_dial env broker s of
             (Some err, s1) \<Rightarrow> wait_again env deadline (Some err) s1
           | (None, (w1, as1)) \<Rightarrow>
               (case ka_ReadPartitions env topic w1 of
                  (res, w2) \<Rightarrow>
                    (let s2 = conn_close broker (w2, as1)
                     in case res of
                          Inl perr \<Rightarrow> wait_again env deadline (Some perr) s2
                        | Inr parts \<Rightarrow> if 0 < parts then Inr (None, s2) else wait_again env deadline None s2))))"

partial_function (option) wait_loop ::
    "'w kafka_admin \<Rightarrow> string \<Rightarrow> string \<Rightarrow> instant \<Rightarrow> 'w admin_state \<Rightarrow> (goerror option \<times> 'w admin_state) option" where
  "wait_loop env broker topic deadline s =
     (case wait_iter env broker topic deadline s of
        Inr r \<Rightarrow> Some r
      | Inl s1 \<Rightarrow> wait_loop env broker topic deadline s1)"

definition waitTopicReady ::
    "'w kafka_admin \<Rightarrow> string \<Rightarrow> string \<Rightarrow> 'w admin_state \<Rightarrow> (goerror option \<times> 'w admin_state) option" where
  "waitTopicReady env broker topic s =
     (let deadline = ka_Now env (fst s) + sint (5 * second) in wait_loop env broker topic deadline s)"

text \<open>\<open>net.JoinHostPort\<close> puts brackets around a host with a colon.\<close>

definition join_host_port :: "string \<Rightarrow> string \<Rightarrow> string" where
  "join_host_port host port =
     (if CHR '':'' \<in> set host then ''['' @ host @ '']:'' @ port else host @ '':'' @ port)"

definition EnsureTopic ::
    "'w kafka_admin \<Rightarrow> string \<Rightarrow> string \<Rightarrow> 'w \<Rightarrow> (goerror option \<times> 'w admin_state) option" where
  "EnsureTopic env broker topic w =
     (let addr = firstBootstrap env broker in
      case kafka_dial env addr (w, []) of
        (Some err, s) \<Rightarrow> Some (Some err, s)
      | (None, (w1, as1)) \<Rightarrow>
          (case ka_Controller env w1 of
             (Inl err, w2) \<Rightarrow> Some (Some err, conn_close addr (w2, as1))
           | (Inr (host, port), w2) \<Rightarrow>
               (let adminAddr = join_host_port host (itoa port) in
                case kafka_dial env adminAddr (w2, as1) of
                  (Some err, s) \<Rightarrow> Some (Some err, conn_close addr s)
                | (None, (w3, as3)) \<Rightarrow>
                    (case ka_CreateTopics env topic w3 of
                       (res, w4) \<Rightarrow>
                         (let s4 = (w4, as3);
                              deferred = (\<lambda>(r, s). (r, conn_close addr (conn_close adminAddr s)))
                          in case res of
                               Some err \<Rightarrow>
                                 if \<not> contains_text ''already exists'' (go_lower (ka_Error env err))
                                 then Some (deferred (Some err, s4))
                                 else map_option deferred (waitTopicReady env addr topic s4)
                             | None \<Rightarrow> map_option deferred (waitTopicReady env addr topic s4))))))"

section \<open>Containers\<close>

record tc_env =
  tc_RunPostgres :: "goerror option"
  tc_ConnectionString :: "goerror + string"
  tc_ParseConfig :: "string \<Rightarrow> goerror + pool_config"
  tc_NewWithConfig :: "pool_config \<Rightarrow> goerror option"
  tc_Terminate :: "string \<Rightarrow> goerror option"
  tc_RunRedpanda :: "goerror option"
  tc_SeedBroker :: "goerror + string"

definition shortID :: "string \<Rightarrow> string" where
  "shortID id' = (if 12 < length id' then take 12 id' else id')"

text \<open>
  The life of a container, and the line that \<open>logHooks\<close> prints at each point of it, with the bytes of
  the signs in front; no hook fails.
\<close>

datatype lifecycle =
    PreCreates string
  | PostCreates string string
  | PreStarts string
  | PostStarts string
  | PostReadies string
  | PreTerminates string
  | PostTerminates string

definition sign_whale :: string where "sign_whale = [CHR 0xF0, CHR 0x9F, CHR 0x90, CHR 0xB3]"
definition sign_check :: string where "sign_check = [CHR 0xE2, CHR 0x9C, CHR 0x85]"
definition sign_bell :: string where "sign_bell = [CHR 0xF0, CHR 0x9F, CHR 0x94, CHR 0x94]"
definition sign_stop :: string where "sign_stop = [CHR 0xF0, CHR 0x9F, CHR 0x9B, CHR 0x91]"
definition sign_no :: string where "sign_no = [CHR 0xF0, CHR 0x9F, CHR 0x9A, CHR 0xAB]"

fun logHooks :: "lifecycle \<Rightarrow> string list \<Rightarrow> goerror option \<times> string list" where
  "logHooks (PreCreates img) out = (None, out @ [sign_whale @ '' creating container image='' @ img])"
| "logHooks (PostCreates cid name) out = (None, out @ [sign_check @ '' created id='' @ shortID cid @ '' name='' @ name])"
| "logHooks (PreStarts cid) out = (None, out @ [sign_whale @ '' starting id='' @ shortID cid])"
| "logHooks (PostStarts cid) out = (None, out @ [sign_check @ '' started id='' @ shortID cid])"
| "logHooks (PostReadies cid) out = (None, out @ [sign_bell @ '' ready id='' @ shortID cid])"
| "logHooks (PreTerminates cid) out = (None, out @ [sign_stop @ '' terminating id='' @ shortID cid])"
| "logHooks (PostTerminates cid) out = (None, out @ [sign_no @ '' terminated id='' @ shortID cid])"

lemma length_shortID: "length (shortID cid) \<le> 12"
  by (simp add: shortID_def)

record pg_container =
  pgc_Pool :: pool_config
  pgc_DSN :: string

definition StartPostgresTC :: "tc_env \<Rightarrow> (goerror + pg_container) \<times> test_action list" where
  "StartPostgresTC env =
     (case tc_RunPostgres env of
        Some err \<Rightarrow> (Inl (Wrapf ''run postgres'' err), [])
      | None \<Rightarrow>
          (let started = [Opened (Container ''postgres'')]; terminated = started @ [Released (Container ''postgres'')] in
           case tc_ConnectionString env of
             Inl err \<Rightarrow> (Inl (Wrapf ''conn string'' err), terminated)
           | Inr dsn \<Rightarrow>
               (case tc_ParseConfig env dsn of
                  Inl err \<Rightarrow> (Inl (Wrapf ''parse cfg'' err), terminated)
                | Inr cfg \<Rightarrow>
                    (let cfg = cfg\<lparr>MaxConns := 5, MaxConnLifetime := 3600 * second, MaxConnIdleTime := 30 * 60 * second\<rparr> in
                     case tc_NewWithConfig env cfg of
                       Some err \<Rightarrow> (Inl (Wrapf ''new pool'' err), terminated)
                     | None \<Rightarrow> (Inr \<lparr>pgc_Pool = cfg, pgc_DSN = dsn\<rparr>, started @ [Opened Test_Pool])))))"

text \<open>The functions \<open>stop\<close> that the callers are given.\<close>

definition stop_postgres :: "tc_env \<Rightarrow> goerror option \<times> test_action list" where
  "stop_postgres env = (tc_Terminate env ''postgres'', [Released Test_Pool, Released (Container ''postgres'')])"

record kafka_test_env =
  kte_Brokers :: "string list"
  kte_BaseTopic :: string

definition StartKafkaTC :: "tc_env \<Rightarrow> string \<Rightarrow> (goerror + kafka_test_env) \<times> test_action list" where
  "StartKafkaTC env baseTopic =
     (case tc_RunRedpanda env of
        Some err \<Rightarrow> (Inl (Wrapf ''run redpanda'' err), [])
      | None \<Rightarrow>
          (case tc_SeedBroker env of
             Inl err \<Rightarrow> (Inl (Wrapf ''seed broker'' err), [Opened (Container ''redpanda''), Released (Container ''redpanda'')])
           | Inr seed \<Rightarrow> (Inr \<lparr>kte_Brokers = [seed], kte_BaseTopic = baseTopic\<rparr>, [Opened (Container ''redpanda'')])))"

definition stop_kafka :: "tc_env \<Rightarrow> goerror option \<times> test_action list" where
  "stop_kafka env = (tc_Terminate env ''redpanda'', [Released (Container ''redpanda'')])"

section \<open>Migrations\<close>

text \<open>\<open>goose_Stat\<close> is what \<open>os.Stat\<close> says of \<open>migrations\<close> under the root: an error, or whether it is a directory.\<close>

record goose_env =
  goose_Stat :: "goerror + bool"
  goose_SetDialect :: "string \<Rightarrow> goerror option"
  goose_Open :: "string \<Rightarrow> string \<Rightarrow> goerror option"
  goose_Up :: "goerror option"

definition ApplyMigrationsGoose :: "goose_env \<Rightarrow> string \<Rightarrow> goerror option \<times> test_action list" where
  "ApplyMigrationsGoose env dsn =
     (if goose_Stat env \<noteq> Inr True then (Some (Errorf ''migrations dir not found''), [])
      else case goose_SetDialect env ''postgres'' of
        Some err \<Rightarrow> (Some (Wrapf ''goose set dialect'' err), [])
      | None \<Rightarrow>
          (case goose_Open env ''pgx'' dsn of
             Some err \<Rightarrow> (Some (Wrapf ''open db'' err), [])
           | None \<Rightarrow>
               (case goose_Up env of
                  Some err \<Rightarrow> (Some (Wrapf ''goose up'' err), [Opened Database, Released Database])
                | None \<Rightarrow> (None, [Opened Database, Released Database]))))"

section \<open>Nothing is left open\<close>

lemma held_after_append:
  "held_after held (as @ bs) = (case held_after held as of None \<Rightarrow> None | Some held1 \<Rightarrow> held_after held1 bs)"
  by (induction held as rule: held_after.induct) simp_all

lemma wait_iter_held:
  assumes "held_after held (snd s) = Some h"
  shows "case wait_iter env broker topic deadline s of Inl s1 \<Rightarrow> held_after held (snd s1) = Some h
    | Inr (r, s1) \<Rightarrow> held_after held (snd s1) = Some h"
  using assms
  by (cases s) (auto simp: wait_iter_def kafka_dial_def conn_close_def wait_again_def held_after_append Let_def
      split: option.splits prod.splits sum.splits if_splits)

lemma wait_loop_held:
  assumes "wait_loop env broker topic deadline s = Some (r, s1)" and "held_after held (snd s) = Some h"
  shows "held_after held (snd s1) = Some h"
proof -
  let ?P = "\<lambda>env broker topic deadline s q. held_after held (snd s) = Some h \<longrightarrow> held_after held (snd (snd q)) = Some h"
  have "?P env broker topic deadline s (r, s1)"
  proof (rule wait_loop.raw_induct [where P = ?P, OF _ assms(1)])
    fix run env broker topic deadline s q
    assume IH: "\<And>env broker topic deadline s q. run env broker topic deadline s = Some q \<Longrightarrow> ?P env broker topic deadline s q"
      and eq: "(case wait_iter env broker topic deadline s of
          Inl s1 \<Rightarrow> run env broker topic deadline s1 | Inr r \<Rightarrow> Some r) = Some q"
    show "?P env broker topic deadline s q"
      using wait_iter_held [of held s h env broker topic deadline] eq IH
      by (cases "wait_iter env broker topic deadline s") (auto split: prod.splits)
  qed
  then show ?thesis using assms(2) by simp
qed

lemma waitTopicReady_held:
  "waitTopicReady env broker topic s = Some (r, s1) \<Longrightarrow> held_after held (snd s) = Some h \<Longrightarrow>
    held_after held (snd s1) = Some h"
  by (auto simp: waitTopicReady_def Let_def intro: wait_loop_held)

lemma waited_held:
  assumes "waitTopicReady env broker topic (w, [Opened a, Opened b]) = Some (r, s1)"
  shows "held_after [] (snd s1) = Some [b, a]"
  using waitTopicReady_held [OF assms, of "[]"] by simp


section \<open>Waiting ends\<close>

text \<open>No call turns the clock back, and a sleep takes at least its time.\<close>

definition clock_ok :: "'w kafka_admin \<Rightarrow> bool" where
  "clock_ok env \<longleftrightarrow>
     (\<forall>addr w. ka_Now env w \<le> ka_Now env (snd (ka_Dial env addr w))) \<and>
     (\<forall>topic w. ka_Now env w \<le> ka_Now env (snd (ka_ReadPartitions env topic w))) \<and>
     (\<forall>d w. 0 \<le> sint d \<longrightarrow> ka_Now env w + sint d \<le> ka_Now env (ka_Sleep env d w))"

fun is_dial :: "test_action \<Rightarrow> bool" where
  "is_dial (Opened (Conn addr)) = True"
| "is_dial (Dial_failed addr) = True"
| "is_dial _ = False"

definition dials :: "test_action list \<Rightarrow> nat" where
  "dials as = length (filter is_dial as)"

lemma dials_simps [simp]:
  "dials (as @ [Opened (Conn addr)]) = Suc (dials as)" "dials (as @ [Dial_failed addr]) = Suc (dials as)"
  "dials (as @ [Released r]) = dials as" "dials (as @ [Opened (Conn addr), Released r]) = Suc (dials as)"
  by (simp_all add: dials_def)

lemma wait_iter_dials:
  "case wait_iter env broker topic deadline s of Inl s1 \<Rightarrow> dials (snd s1) = Suc (dials (snd s))
    | Inr (r, s1) \<Rightarrow> dials (snd s1) \<le> Suc (dials (snd s))"
  by (cases s) (auto simp: wait_iter_def kafka_dial_def conn_close_def wait_again_def Let_def
      split: option.splits prod.splits sum.splits if_splits)

lemma wait_iter_clock:
  assumes clock: "clock_ok env" and iter: "wait_iter env broker topic deadline s = Inl s1"
  shows "ka_Now env (fst s) \<le> deadline" and "ka_Now env (fst s) + 200 * 10 ^ 6 \<le> ka_Now env (fst s1)"
proof -
  have dial: "ka_Now env w \<le> ka_Now env w1" if "ka_Dial env addr w = (e, w1)" for addr w e w1
    using clock that unfolding clock_ok_def by (metis snd_conv)
  have read: "ka_Now env w \<le> ka_Now env w1" if "ka_ReadPartitions env topic w = (e, w1)" for w e w1
    using clock that unfolding clock_ok_def by (metis snd_conv)
  have "sint (200 * millisecond) = 200 * 10 ^ 6" by (simp add: millisecond_def)
  then have nap: "ka_Now env w + 200 * 10 ^ 6 \<le> ka_Now env (ka_Sleep env (200 * millisecond) w)" for w
    using clock unfolding clock_ok_def by (metis zero_le_numeral mult_nonneg_nonneg zero_le_power)
  obtain w where w: "ka_Now env (fst s) \<le> ka_Now env w" "ka_Now env w \<le> deadline"
    "fst s1 = ka_Sleep env (200 * millisecond) w"
    using iter
    by (cases s, auto simp: wait_iter_def kafka_dial_def conn_close_def wait_again_def Let_def
        split: option.splits prod.splits sum.splits if_splits dest!: dial read) (metis order_trans not_le)+
  show "ka_Now env (fst s) \<le> deadline" using w by simp
  show "ka_Now env (fst s) + 200 * 10 ^ 6 \<le> ka_Now env (fst s1)" using w nap [of w] by simp
qed

lemma wait_loop_returns:
  assumes "clock_ok env" and "deadline < ka_Now env (fst s) + int k * (200 * 10 ^ 6)"
  shows "\<exists>r s1. wait_loop env broker topic deadline s = Some (r, s1) \<and> dials (snd s1) \<le> dials (snd s) + Suc k"
  using assms(2)
proof (induction k arbitrary: s)
  case (0 s)
  then obtain r where r: "wait_iter env broker topic deadline s = Inr r"
    using wait_iter_clock(1) [OF assms(1), of broker topic deadline s]
    by (cases "wait_iter env broker topic deadline s") auto
  then show ?case
    using wait_iter_dials [where env = env and broker = broker and topic = topic and deadline = deadline and s = s] by (subst wait_loop.simps) (auto split: prod.splits)
next
  case (Suc k)
  show ?case
  proof (cases "wait_iter env broker topic deadline s")
    case (Inl s1)
    have "deadline < ka_Now env (fst s1) + int k * (200 * 10 ^ 6)"
      using wait_iter_clock(2) [OF assms(1) Inl] Suc.prems by (simp add: algebra_simps)
    from Suc.IH [OF this] wait_iter_dials [where env = env and broker = broker and topic = topic and deadline = deadline and s = s] show ?thesis
      by (subst wait_loop.simps) (auto simp: Inl)
  next
    case (Inr r)
    then show ?thesis
      using wait_iter_dials [where env = env and broker = broker and topic = topic and deadline = deadline and s = s] by (subst wait_loop.simps) (auto split: prod.splits)
  qed
qed

text \<open>C35: waiting for a topic ends: with a clock that is not turned back and sleeps that take their time,
  \<open>waitTopicReady\<close> returns whatever the brokers answer, after at most 27 connections.\<close>
theorem waitTopicReady_returns:
  assumes "clock_ok env"
  shows "\<exists>r s1. waitTopicReady env broker topic s = Some (r, s1) \<and> dials (snd s1) \<le> dials (snd s) + 27"
proof -
  have "sint (5 * second) = 5 * 10 ^ 9" by (simp add: second_def)
  then have "ka_Now env (fst s) + sint (5 * second) < ka_Now env (fst s) + int 26 * (200 * 10 ^ 6)" by simp
  from wait_loop_returns [OF assms this] show ?thesis by (simp add: waitTopicReady_def Let_def)
qed

text \<open>A world that is a clock, and a broker without the topic.\<close>

definition empty_broker :: "int kafka_admin" where
  "empty_broker =
     \<lparr>ka_url_Host = (\<lambda>s. None), ka_Dial = (\<lambda>addr w. (None, w)), ka_Controller = (\<lambda>w. (Inr (''localhost'', 9092), w)),
      ka_CreateTopics = (\<lambda>topic w. (None, w)), ka_ReadPartitions = (\<lambda>topic w. (Inr 0, w + 1)),
      ka_Error = (\<lambda>e. []), ka_Now = (\<lambda>w. w), ka_ctx_Err = (\<lambda>w. None), ka_Sleep = (\<lambda>d w. w + sint d)\<rparr>"

lemma waitTopicReady_returns_witness:
  "\<exists>r s1. waitTopicReady empty_broker ''localhost:9092'' ''orders'' (0, []) = Some (r, s1) \<and> dials (snd s1) \<le> 27"
proof -
  have "clock_ok empty_broker" by (simp add: clock_ok_def empty_broker_def)
  from waitTopicReady_returns [OF this, of "''localhost:9092''" "''orders''" "(0, [])"] show ?thesis
    by (simp add: dials_def)
qed

end
