(* ===== verification/Topic_Names.thy ===== *)
theory Topic_Names
  imports Go_Strings
begin

text \<open>
  The names of topics and groups in the integration tests (\<open>UniqueTopicAndGroup\<close> of
  \<open>internal/testutil/kafka.go\<close>): the time in UTC by \<open>time.Format\<close>, for which the calendar is written
  out, from January 1 of year 1, where \<open>instant\<close> starts.
\<close>

section \<open>The calendar\<close>

definition year_length :: "nat \<Rightarrow> nat" where
  "year_length y = (if y mod 4 = 0 \<and> (y mod 100 \<noteq> 0 \<or> y mod 400 = 0) then 366 else 365)"

definition month_lengths :: "nat \<Rightarrow> nat list" where
  "month_lengths y = [31, if year_length y = 366 then 29 else 28, 31, 30, 31, 30, 31, 31, 30, 31, 30, 31]"

text \<open>The year, and the day of it, of the \<open>d\<close>-th day since year \<open>y\<close> began; likewise for months.\<close>

function year_of :: "nat \<Rightarrow> nat \<Rightarrow> nat \<times> nat" where
  "year_of y d = (if d < year_length y then (y, d) else year_of (Suc y) (d - year_length y))"
  by pat_completeness auto
termination
  by (relation "measure snd") (auto simp: year_length_def)

declare year_of.simps [simp del]

fun month_of :: "nat list \<Rightarrow> nat \<Rightarrow> nat \<Rightarrow> nat \<times> nat" where
  "month_of [] m d = (m, d)"
| "month_of (l # ls) m d = (if d < l then (m, d) else month_of ls (Suc m) (d - l))"

section \<open>Formatting\<close>

text \<open>The last \<open>k\<close> decimal digits.\<close>

fun digits_of :: "nat \<Rightarrow> nat \<Rightarrow> string" where
  "digits_of 0 n = []"
| "digits_of (Suc k) n = digits_of k (n div 10) @ [digit (n mod 10)]"

definition year_text :: "nat \<Rightarrow> string" where
  "year_text y = (if y < 10000 then digits_of 4 y else itoa_nat y)"

text \<open>\<open>Format("20060102T150405.000000000")\<close>.\<close>

definition format_time :: "instant \<Rightarrow> string" where
  "format_time t =
     (let secs = nat (t div 10 ^ 9); nanos = nat (t mod 10 ^ 9);
          (y, yday) = year_of 1 (secs div 86400); (m, mday) = month_of (month_lengths y) 1 yday
      in year_text y @ digits_of 2 m @ digits_of 2 (mday + 1) @ ''T'' @
         digits_of 2 (secs mod 86400 div 3600) @ digits_of 2 (secs mod 3600 div 60) @ digits_of 2 (secs mod 60) @
         ''.'' @ digits_of 9 nanos)"

text \<open>\<open>strings.ReplaceAll(s, ".", "")\<close>.\<close>

definition UniqueTopicAndGroup :: "string \<Rightarrow> instant \<Rightarrow> string \<times> string" where
  "UniqueTopicAndGroup base clock =
     (let s = filter (\<lambda>c. c \<noteq> CHR ''.'') (format_time clock)
      in (base @ ''-'' @ s, base @ ''-'' @ s))"

section \<open>No two instants have the same name\<close>

lemma length_digits_of [simp]: "length (digits_of k n) = k"
  by (induction k arbitrary: n) simp_all

lemma digits_of_value: "digits_value (digits_of k n) = n mod 10 ^ k"
proof (induction k arbitrary: n)
  case (Suc k)
  have "10 * (n div 10 mod 10 ^ k) + n mod 10 = n mod (10 * 10 ^ k)"
    by (simp only: mod_mult2_eq [of n 10 "10 ^ k"])
  with Suc show ?case by (simp add: digits_value_snoc)
qed (simp add: digits_value_def)

lemma digits_of_inject: "m < 10 ^ k \<Longrightarrow> n < 10 ^ k \<Longrightarrow> digits_of k m = digits_of k n \<longleftrightarrow> m = n"
  by (metis digits_of_value mod_less)

lemma digits_no_dot: "CHR ''.'' \<notin> set (digits_of k n)"
proof -
  have "list_all is_digit (digits_of k n)" by (induction k arbitrary: n) simp_all
  then show ?thesis by (auto simp: list_all_iff is_digit_def byte_def)
qed

lemma filter_digits [simp]: "filter (\<lambda>c. c \<noteq> CHR ''.'') (digits_of k n) = digits_of k n"
  using digits_no_dot [of k n] by (auto simp: filter_id_conv)

lemma year_of_days:
  "year_of y d = (y', r) \<Longrightarrow> y \<le> y' \<and> r < year_length y' \<and> d = (\<Sum>i\<in>{y..<y'}. year_length i) + r"
proof (induction y d arbitrary: y' r rule: year_of.induct)
  case (1 y d)
  show ?case
  proof (cases "d < year_length y")
    case True
    then show ?thesis using "1.prems" by (auto simp: year_of.simps [of y d])
  next
    case False
    then have *: "Suc y \<le> y'" "r < year_length y'" "d - year_length y = (\<Sum>i\<in>{Suc y..<y'}. year_length i) + r"
      using 1 by (simp_all add: year_of.simps [of y d])
    then have "(\<Sum>i\<in>{y..<y'}. year_length i) = year_length y + (\<Sum>i\<in>{Suc y..<y'}. year_length i)"
      by (intro sum.atLeast_Suc_lessThan) simp
    with * False show ?thesis by simp
  qed
qed

lemma month_of_days:
  "month_of ls m d = (m', r) \<Longrightarrow> d < sum_list ls \<Longrightarrow>
    m \<le> m' \<and> m' < m + length ls \<and> d = sum_list (take (m' - m) ls) + r \<and> r < ls ! (m' - m)"
proof (induction ls m d arbitrary: m' r rule: month_of.induct)
  case (2 l ls m d)
  show ?case
  proof (cases "d < l")
    case True
    then show ?thesis using 2 by auto
  next
    case False
    then have *: "Suc m \<le> m'" "m' < Suc m + length ls" "d - l = sum_list (take (m' - Suc m) ls) + r" "r < ls ! (m' - Suc m)"
      using 2 by auto
    then have "m' - m = Suc (m' - Suc m)" by simp
    with * False show ?thesis by simp
  qed
qed simp

lemma sum_month_lengths: "sum_list (month_lengths y) = year_length y"
  by (simp add: month_lengths_def year_length_def)

lemma month_lengths_le: "i < 12 \<Longrightarrow> month_lengths y ! i \<le> 31"
  by (auto simp: month_lengths_def less_Suc_eq numeral_eq_Suc)

text \<open>The date and the time of day of an instant, and that they determine it.\<close>

lemma date_bounds:
  assumes "year_of 1 d = (y, yday)" and "month_of (month_lengths y) 1 yday = (m, mday)"
  shows "m < 100 \<and> mday + 1 < 100 \<and> yday = sum_list (take (m - 1) (month_lengths y)) + mday \<and>
    d = (\<Sum>i\<in>{1..<y}. year_length i) + yday"
proof -
  note yd = year_of_days [OF assms(1)]
  then have "yday < sum_list (month_lengths y)" by (simp add: sum_month_lengths)
  note md = month_of_days [OF assms(2) this]
  have "length (month_lengths y) = 12" by (simp add: month_lengths_def)
  then have m: "1 \<le> m" "m < 13" using md by simp_all
  then have "m - 1 < 12" by linarith
  then have "mday < 31" using md month_lengths_le [of "m - 1" y] by simp
  with m show ?thesis using md yd by simp
qed

definition stamp :: "nat \<Rightarrow> nat \<Rightarrow> string" where
  "stamp secs nanos =
     (let (y, yday) = year_of 1 (secs div 86400); (m, mday) = month_of (month_lengths y) 1 yday
      in digits_of 4 y @ digits_of 2 m @ digits_of 2 (mday + 1) @ ''T'' @
         digits_of 2 (secs mod 86400 div 3600) @ digits_of 2 (secs mod 3600 div 60) @ digits_of 2 (secs mod 60) @
         digits_of 9 nanos)"

lemma time_of_day:
  assumes "x mod 86400 div 3600 = y mod 86400 div 3600" and "x mod 3600 div 60 = y mod 3600 div (60 :: nat)"
    and "x mod 60 = y mod 60"
  shows "x mod 86400 = y mod 86400"
proof -
  have *: "z mod 86400 = z mod 86400 div 3600 * 3600 + (z mod 3600 div 60 * 60 + z mod 60)" for z :: nat
  proof -
    have "z mod 86400 mod 3600 = z mod 3600" "z mod 3600 mod 60 = z mod 60" by (simp_all add: mod_mod_cancel)
    then show ?thesis by (metis div_mult_mod_eq)
  qed
  show ?thesis using assms * [of x] * [of y] by simp
qed

lemma stamp_inject:
  assumes "fst (year_of 1 (x div 86400)) < 10000" and "fst (year_of 1 (y div 86400)) < 10000"
    and "m < 10 ^ 9" and "n < 10 ^ 9" and eq: "stamp x m = stamp y n"
  shows "x = y \<and> m = n"
proof -
  obtain xy xd xm xmd where x: "year_of 1 (x div 86400) = (xy, xd)" "month_of (month_lengths xy) 1 xd = (xm, xmd)"
    by (metis prod.exhaust)
  obtain yy yd ym ymd where y: "year_of 1 (y div 86400) = (yy, yd)" "month_of (month_lengths yy) 1 yd = (ym, ymd)"
    by (metis prod.exhaust)
  note bx = date_bounds [OF x] and bound_y = date_bounds [OF y]
  have "digits_of 4 xy = digits_of 4 yy \<and> digits_of 2 xm = digits_of 2 ym \<and> digits_of 2 (xmd + 1) = digits_of 2 (ymd + 1) \<and>
      digits_of 2 (x mod 86400 div 3600) = digits_of 2 (y mod 86400 div 3600) \<and>
      digits_of 2 (x mod 3600 div 60) = digits_of 2 (y mod 3600 div 60) \<and>
      digits_of 2 (x mod 60) = digits_of 2 (y mod 60) \<and> digits_of 9 m = digits_of 9 n"
    using eq unfolding stamp_def x y Let_def prod.case by simp
  moreover have "z mod 86400 div 3600 < 100" "z mod 3600 div 60 < 100" "z mod 60 < 100" for z :: nat
  proof -
    have "z mod 86400 < 86400" "z mod 3600 < 3600" "z mod 60 < 60" by simp_all
    then show "z mod 86400 div 3600 < 100" "z mod 3600 div 60 < 100" "z mod 60 < 100"
      by (intro less_mult_imp_div_less, linarith)+ linarith
  qed
  moreover have "xy < 10000" "yy < 10000" using assms(1,2) unfolding x y by simp_all
  ultimately have "xy = yy \<and> xm = ym \<and> xmd + 1 = ymd + 1 \<and> x mod 86400 div 3600 = y mod 86400 div 3600 \<and>
      x mod 3600 div 60 = y mod 3600 div 60 \<and> x mod 60 = y mod 60 \<and> m = n"
    using assms(3,4) bx bound_y digits_of_inject [of _ 2] digits_of_inject [of _ 4] digits_of_inject [of _ 9]
    by simp
  moreover from this have "x mod 86400 = y mod 86400" by (intro time_of_day) simp_all
  moreover have "x div 86400 = y div 86400" using calculation(1) bx bound_y by simp
  ultimately show ?thesis by (metis div_mult_mod_eq)
qed

lemma filter_format:
  assumes "fst (year_of 1 (nat (t div 10 ^ 9) div 86400)) < 10000"
  shows "filter (\<lambda>c. c \<noteq> CHR ''.'') (format_time t) = stamp (nat (t div 10 ^ 9)) (nat (t mod 10 ^ 9))"
proof -
  obtain y yday m mday where eq: "year_of 1 (nat (t div 10 ^ 9) div 86400) = (y, yday)"
    "month_of (month_lengths y) 1 yday = (m, mday)" by (metis prod.exhaust)
  with assms have "y < 10000" by simp
  then show ?thesis by (simp only: format_time_def stamp_def Let_def eq prod.case year_text_def if_True) simp
qed

text \<open>topics are unique: up to the year 9999, the names made at two different nanoseconds differ.\<close>
theorem topics_are_unique:
  assumes "0 \<le> t" and "0 \<le> t'" and "t \<noteq> t'"
    and "fst (year_of 1 (nat (t div 10 ^ 9) div 86400)) < 10000"
    and "fst (year_of 1 (nat (t' div 10 ^ 9) div 86400)) < 10000"
  shows "fst (UniqueTopicAndGroup base t) \<noteq> fst (UniqueTopicAndGroup base t')"
proof
  assume "fst (UniqueTopicAndGroup base t) = fst (UniqueTopicAndGroup base t')"
  then have eq: "stamp (nat (t div 10 ^ 9)) (nat (t mod 10 ^ 9)) = stamp (nat (t' div 10 ^ 9)) (nat (t' mod 10 ^ 9))"
    using filter_format [OF assms(4)] filter_format [OF assms(5)] by (simp add: UniqueTopicAndGroup_def Let_def)
  have small: "nat (u mod 10 ^ 9) < 10 ^ 9" for u :: int
  proof -
    have "0 \<le> u mod 10 ^ 9" "u mod 10 ^ 9 < 10 ^ 9" by simp_all
    then show ?thesis by (simp add: nat_less_iff)
  qed
  have "nat (t div 10 ^ 9) = nat (t' div 10 ^ 9) \<and> nat (t mod 10 ^ 9) = nat (t' mod 10 ^ 9)"
    by (rule stamp_inject [OF assms(4,5) small small eq])
  moreover have "0 \<le> t div 10 ^ 9" "0 \<le> t' div 10 ^ 9" "0 \<le> t mod 10 ^ 9" "0 \<le> t' mod 10 ^ 9"
    using assms(1,2) by (simp_all add: pos_imp_zdiv_nonneg_iff)
  ultimately have "t div 10 ^ 9 = t' div 10 ^ 9" "t mod 10 ^ 9 = t' mod 10 ^ 9" by linarith+
  then show False using assms(3) by (metis div_mult_mod_eq)
qed

text \<open>August 26 of year 1, 01:02:03.123456789.\<close>

lemma digits_of_numeral: "digits_of (numeral k) n = digits_of (pred_numeral k) (n div 10) @ [digit (n mod 10)]"
  by (simp only: numeral_eq_Suc [of k] digits_of.simps)

lemma digit_chars:
  "digit 0 = CHR ''0'' \<and> digit (Suc 0) = CHR ''1'' \<and> digit 2 = CHR ''2'' \<and> digit 3 = CHR ''3'' \<and>
   digit 4 = CHR ''4'' \<and> digit 5 = CHR ''5'' \<and> digit 6 = CHR ''6'' \<and> digit 7 = CHR ''7'' \<and>
   digit 8 = CHR ''8'' \<and> digit 9 = CHR ''9''"
  by (simp add: digit_def char_of_def bit_iff_odd)

lemma topics_are_unique_witness:
  "fst (UniqueTopicAndGroup ''orders-itest'' 20480523123456789) = ''orders-itest-00010826T010203123456789'' \<and>
   fst (UniqueTopicAndGroup ''orders-itest'' 20480523123456789) \<noteq> fst (UniqueTopicAndGroup ''orders-itest'' 20480523123456790)"
proof
  have year: "year_of (Suc 0) 237 = (1, 237)" by (simp add: year_of.simps year_length_def)
  have "filter (\<lambda>c. c \<noteq> CHR ''.'') (format_time 20480523123456789) = ''00010826T010203123456789''"
    by (subst filter_format) (simp_all add: year stamp_def month_lengths_def year_length_def digits_of_numeral digit_chars)
  then show "fst (UniqueTopicAndGroup ''orders-itest'' 20480523123456789) = ''orders-itest-00010826T010203123456789''"
    by (simp add: UniqueTopicAndGroup_def Let_def)
  show "fst (UniqueTopicAndGroup ''orders-itest'' 20480523123456789) \<noteq>
      fst (UniqueTopicAndGroup ''orders-itest'' 20480523123456790)"
    by (rule topics_are_unique) (simp_all add: year)
qed

end
