(* ===== verification/Observe.thy ===== *)
theory Observe
  imports Http
begin

text \<open>
  Logging and metrics: the fields that \<open>pkg/logger/zap.go\<close> takes from the context for every line, with
  the trace identifiers of \<open>pkg/ctxmeta\<close> in both builds, and the collectors of
  \<open>pkg/metrics/metrics.go\<close> with their registration.  zap, the active span of OpenTelemetry and the
  registry of Prometheus are arguments.
\<close>

section \<open>Trace identifiers\<close>

text \<open>What the active span of a context says of itself.\<close>

record span_context =
  sc_IsValid :: bool
  sc_TraceID :: string
  sc_SpanID :: string

text \<open>\<open>otel\<close> tells whether the program is built with that tag; without it the functions are stubs.\<close>

definition TraceIDFromContext :: "bool \<Rightarrow> span_context \<Rightarrow> string \<times> bool" where
  "TraceIDFromContext otel sc = (if otel \<and> sc_IsValid sc then (sc_TraceID sc, True) else ([], False))"

definition SpanIDFromContext :: "bool \<Rightarrow> span_context \<Rightarrow> string \<times> bool" where
  "SpanIDFromContext otel sc = (if otel \<and> sc_IsValid sc then (sc_SpanID sc, True) else ([], False))"

section \<open>The logger\<close>

type_synonym log_fields = "(string \<times> string) list"

datatype log_level = Level_Info | Level_Warn | Level_Error

record log_entry =
  le_level :: log_level
  le_fields :: log_fields
  le_text :: string

text \<open>\<open>With\<close> gives a logger with one more field; the wrapped logger itself stays as it is.\<close>

definition log_With :: "string \<Rightarrow> string \<Rightarrow> log_fields \<Rightarrow> log_fields" where
  "log_With key v fs = fs @ [(key, v)]"

definition withCtx :: "bool \<Rightarrow> log_fields \<Rightarrow> go_context option \<Rightarrow> span_context \<Rightarrow> log_fields" where
  "withCtx otel sugar ctx sc =
     (let logger = sugar;
          logger = (case RequestIDFromContext ctx of (rid, ok) \<Rightarrow> if ok then log_With ''request_id'' rid logger else logger);
          logger = (case TraceIDFromContext otel sc of (tid, ok) \<Rightarrow> if ok then log_With ''trace_id'' tid logger else logger);
          logger = (case SpanIDFromContext otel sc of (sid, ok) \<Rightarrow> if ok then log_With ''span_id'' sid logger else logger)
      in logger)"

text \<open>\<open>Infof\<close>, \<open>Warnf\<close> and \<open>Errorf\<close>, given the formatted text.\<close>

definition zap_log ::
    "log_level \<Rightarrow> bool \<Rightarrow> log_fields \<Rightarrow> go_context option \<Rightarrow> span_context \<Rightarrow> string \<Rightarrow> log_entry list \<Rightarrow> log_entry list" where
  "zap_log level otel sugar ctx sc text' out =
     out @ [\<lparr>le_level = level, le_fields = withCtx otel sugar ctx sc, le_text = text'\<rparr>]"

lemma RequestIDFromContext_iff:
  "RequestIDFromContext ctx = (rid, True) \<longleftrightarrow> (\<exists>c. ctx = Some c \<and> key_request_id c = Some rid \<and> rid \<noteq> [])"
  by (auto simp: RequestIDFromContext_def split: option.splits if_splits)

text \<open>log lines can be joined with responses: within a request that passed the middleware every line,
  of any level, has the field \<open>request_id\<close> exactly once, with the value of the response's
  \<open>X-Request-ID\<close>, and the trace fields exactly in the build with OpenTelemetry and a valid span.\<close>
theorem request_log_fields:
  assumes "RequestIDMiddleware uuid rq = (requestID, ctx)" and "uuid \<noteq> []"
  shows "\<exists>traces. zap_log level otel [] ctx sc text' out =
      out @ [\<lparr>le_level = level, le_fields = (''request_id'', requestID) # traces, le_text = text'\<rparr>] \<and>
    requestID \<noteq> [] \<and> (''request_id'', requestID) \<notin> set traces \<and>
    map fst traces = (if otel \<and> sc_IsValid sc then [''trace_id'', ''span_id''] else [])"
proof -
  have "requestID \<noteq> []" "RequestIDFromContext ctx = (requestID, True)"
    using assms by (auto simp: RequestIDMiddleware_def RequestIDFromContext_def WithRequestID_def Let_def split: if_splits)
  then show ?thesis
    by (auto simp: zap_log_def withCtx_def log_With_def TraceIDFromContext_def SpanIDFromContext_def Let_def)
qed

section \<open>Collectors\<close>

datatype collector_kind = CounterVec | Gauge

record collector =
  co_kind :: collector_kind
  co_name :: string
  co_help :: string
  co_labels :: "string list"

definition KafkaMessagesConsumed :: collector where
  "KafkaMessagesConsumed =
     \<lparr>co_kind = CounterVec, co_name = ''kafka_messages_consumed_total'',
      co_help = ''Number of messages fetched from Kafka'', co_labels = [''topic'']\<rparr>"

definition KafkaMessagesProcessed :: collector where
  "KafkaMessagesProcessed =
     \<lparr>co_kind = CounterVec, co_name = ''kafka_messages_processed_total'',
      co_help = ''Number of messages processed successfully'', co_labels = [''topic'']\<rparr>"

definition KafkaMessagesFailed :: collector where
  "KafkaMessagesFailed =
     \<lparr>co_kind = CounterVec, co_name = ''kafka_messages_failed_total'',
      co_help = ''Number of messages failed to process'', co_labels = [''topic'']\<rparr>"

definition CacheOps_vec :: collector where
  "CacheOps_vec =
     \<lparr>co_kind = CounterVec, co_name = ''cache_operations_total'', co_help = ''Cache operations'',
      co_labels = [''op'']\<rparr>"

definition CacheSize_gauge :: collector where
  "CacheSize_gauge =
     \<lparr>co_kind = Gauge, co_name = ''cache_size'', co_help = ''Number of items currently in cache'',
      co_labels = []\<rparr>"

section \<open>Registration\<close>

text \<open>
  \<open>register\<close> is the registry's, \<open>None\<close> when it refuses the collector; \<open>prometheus.MustRegister\<close> then
  panics.  \<open>registerOnce\<close> runs its function in the first call only.
\<close>

fun prometheus_MustRegister :: "(collector \<Rightarrow> 'r \<Rightarrow> 'r option) \<Rightarrow> collector list \<Rightarrow> 'r \<Rightarrow> 'r option" where
  "prometheus_MustRegister register [] r = Some r"
| "prometheus_MustRegister register (c # cs) r =
     (case register c r of
        None \<Rightarrow> None
      | Some r1 \<Rightarrow> prometheus_MustRegister register cs r1)"

definition own_collectors :: "collector list" where
  "own_collectors = [KafkaMessagesConsumed, KafkaMessagesProcessed, KafkaMessagesFailed, CacheOps_vec, CacheSize_gauge]"

definition MustRegister :: "(collector \<Rightarrow> 'r \<Rightarrow> 'r option) \<Rightarrow> bool \<times> 'r \<Rightarrow> (bool \<times> 'r) option" where
  "MustRegister register = (\<lambda>(registerOnce, r).
     if registerOnce then Some (True, r)
     else map_option (\<lambda>r. (True, r)) (prometheus_MustRegister register own_collectors r))"

fun MustRegister_times :: "(collector \<Rightarrow> 'r \<Rightarrow> 'r option) \<Rightarrow> nat \<Rightarrow> bool \<times> 'r \<Rightarrow> (bool \<times> 'r) option" where
  "MustRegister_times register 0 s = Some s"
| "MustRegister_times register (Suc n) s =
     (case MustRegister register s of None \<Rightarrow> None | Some s1 \<Rightarrow> MustRegister_times register n s1)"

text \<open>A registry refuses exactly the names it has.\<close>

definition registry_ok :: "(collector \<Rightarrow> 'r \<Rightarrow> 'r option) \<Rightarrow> ('r \<Rightarrow> string set) \<Rightarrow> bool" where
  "registry_ok register names \<longleftrightarrow>
     (\<forall>c r. case register c r of
        None \<Rightarrow> co_name c \<in> names r
      | Some r1 \<Rightarrow> co_name c \<notin> names r \<and> names r1 = insert (co_name c) (names r))"

lemma registry_okD:
  "registry_ok register names \<Longrightarrow>
    case register c r of
      None \<Rightarrow> co_name c \<in> names r
    | Some r1 \<Rightarrow> co_name c \<notin> names r \<and> names r1 = insert (co_name c) (names r)"
  by (simp add: registry_ok_def)

lemma MustRegister_all:
  assumes ok: "registry_ok register names"
  shows "distinct (map co_name cs) \<Longrightarrow> set (map co_name cs) \<inter> names r = {} \<Longrightarrow>
    \<exists>r1. prometheus_MustRegister register cs r = Some r1 \<and> names r1 = names r \<union> set (map co_name cs)"
proof (induction cs arbitrary: r)
  case (Cons c cs)
  note registry_okD [OF ok, of c r]
  then obtain r1 where r1: "register c r = Some r1" "names r1 = insert (co_name c) (names r)"
    using Cons.prems(2) by (cases "register c r") auto
  have "set (map co_name cs) \<inter> names r1 = {}" using Cons.prems by (simp add: r1(2))
  with Cons.IH [of r1] Cons.prems(1) obtain r2
    where "prometheus_MustRegister register cs r1 = Some r2" "names r2 = names r1 \<union> set (map co_name cs)" by auto
  then show ?case using r1 by simp
qed simp

lemmas collector_defs = own_collectors_def KafkaMessagesConsumed_def KafkaMessagesProcessed_def
  KafkaMessagesFailed_def CacheOps_vec_def CacheSize_gauge_def

lemmas string_neq = insert_iff empty_iff list.inject char.inject simp_thms list.distinct

lemma own_names_eq:
  "map co_name own_collectors =
     [''kafka_messages_consumed_total'', ''kafka_messages_processed_total'', ''kafka_messages_failed_total'',
      ''cache_operations_total'', ''cache_size'']"
  by (simp only: collector_defs list.map collector.simps)

lemma own_names: "distinct (map co_name own_collectors)"
  unfolding own_names_eq by (simp only: distinct.simps list.set string_neq)

lemma MustRegister_again: "MustRegister_times register n (True, r) = Some (True, r)"
  by (induction n) (simp_all add: MustRegister_def)

text \<open>registering never panics, however often it is done: in a process whose registry has none of
  the five names, any number of calls of \<open>MustRegister\<close> succeeds and registers each name once; the
  first one without \<open>sync.Once\<close> in between would already be refused.\<close>
theorem MustRegister_never_panics:
  assumes "registry_ok register names" and "set (map co_name own_collectors) \<inter> names r = {}"
  shows "\<exists>r1. MustRegister_times register (Suc n) (False, r) = Some (True, r1) \<and>
    names r1 = names r \<union> set (map co_name own_collectors) \<and>
    prometheus_MustRegister register own_collectors r1 = None"
proof -
  obtain r1 where r1: "prometheus_MustRegister register own_collectors r = Some r1"
    "names r1 = names r \<union> set (map co_name own_collectors)"
    using MustRegister_all [OF assms(1) own_names assms(2)] by blast
  have "co_name KafkaMessagesConsumed \<in> names r1" by (simp add: r1 own_collectors_def)
  then have "register KafkaMessagesConsumed r1 = None"
    using registry_okD [OF assms(1), of KafkaMessagesConsumed r1] by (cases "register KafkaMessagesConsumed r1") auto
  then have "prometheus_MustRegister register own_collectors r1 = None" by (simp add: own_collectors_def)
  then show ?thesis using r1 by (simp add: MustRegister_def MustRegister_again)
qed

definition name_registry :: "collector \<Rightarrow> string list \<Rightarrow> string list option" where
  "name_registry c r = (if co_name c \<in> set r then None else Some (co_name c # r))"

lemma MustRegister_never_panics_witness:
  "\<exists>r1. MustRegister_times name_registry 3 (False, [''go_goroutines'']) = Some (True, r1) \<and> ''cache_size'' \<in> set r1"
proof -
  have ok: "registry_ok name_registry set" by (simp add: registry_ok_def name_registry_def)
  have new: "set (map co_name own_collectors) \<inter> set [''go_goroutines''] = {}"
    unfolding own_names_eq by (simp only: list.set Int_insert_left Int_empty_left string_neq if_False)
  obtain r1 where run: "MustRegister_times name_registry (Suc 2) (False, [''go_goroutines'']) = Some (True, r1)"
    and "set r1 = set [''go_goroutines''] \<union> set (map co_name own_collectors)"
    using MustRegister_never_panics [where register = name_registry and names = set and r = "[''go_goroutines'']" and n = 2, OF ok new] by (elim exE conjE)
  then have "''cache_size'' \<in> set r1" unfolding own_names_eq by (simp only: list.set Un_iff insert_iff simp_thms)
  moreover have "Suc 2 = 3" by simp
  ultimately show ?thesis using run by metis
qed

lemma request_log_fields_witness:
  "\<exists>traces. zap_log Level_Warn False [] (snd (RequestIDMiddleware ''u1'' (request.make R_Ping Map.empty ''r7'' \<lparr>key_request_id = None\<rparr> ''GET'' ''/ping'')))
     \<lparr>sc_IsValid = True, sc_TraceID = ''t'', sc_SpanID = ''s''\<rparr> ''cache miss'' [] =
     [\<lparr>le_level = Level_Warn, le_fields = (''request_id'', ''r7'') # traces, le_text = ''cache miss''\<rparr>] \<and> traces = []"
proof -
  let ?rq = "request.make R_Ping Map.empty ''r7'' \<lparr>key_request_id = None\<rparr> ''GET'' ''/ping''"
  have "RequestIDMiddleware ''u1'' ?rq = (''r7'', snd (RequestIDMiddleware ''u1'' ?rq))"
    by (simp add: RequestIDMiddleware_def request.make_def Let_def)
  from request_log_fields [OF this, of Level_Warn False "\<lparr>sc_IsValid = True, sc_TraceID = ''t'', sc_SpanID = ''s''\<rparr>" "''cache miss''" "[]"]
  show ?thesis by auto
qed

end
